theory Spec2Isabelle
  imports Main
begin

section \<open>Board and pieces\<close>

text \<open>
  A cell of the grid is a Python string: the single blank \<open>'' ''\<close> is an empty slot, any
  other string is the symbol of the piece occupying it.  The grid is a list of rows, row 0
  at the top.  \<open>Board.__init__\<close> builds \<open>rows\<close> rows of \<open>columns\<close> blanks; a
  dimension that is not positive gives an empty range, so the dimensions are naturals.
\<close>

type_synonym grid = "string list list"

record board =
  rows :: nat
  columns :: nat
  grid :: grid

definition Board :: "nat \<Rightarrow> nat \<Rightarrow> board" where
  "Board r c = \<lparr>rows = r, columns = c, grid = replicate r (replicate c '' '')\<rparr>"

text \<open>
  The assignment \<open>board.grid[row][column] = value\<close>.  The placement code reads and
  writes the grid at indices it has compared with \<open>rows\<close> and \<open>columns\<close> or taken
  from their ranges; on a grid of the declared dimensions (\<open>wf_board\<close> below, which
  \<open>Board.__init__\<close> establishes and every insertion keeps) they are indices of the
  lists, so that Python raises no \<open>IndexError\<close> there.  The facts about placement
  assume such a board.
\<close>

definition set_cell :: "grid \<Rightarrow> nat \<Rightarrow> nat \<Rightarrow> string \<Rightarrow> grid" where
  "set_cell g row column v = g[row := (g ! row)[column := v]]"

text \<open>
  The three classes \<open>Piece\<close>, \<open>BombPiece\<close> and \<open>TeleportPiece\<close>.  Only a plain
  \<open>Piece\<close> carries a symbol of its own; the constructors of the two subclasses fix it.
\<close>

datatype piece = Piece string | BombPiece | TeleportPiece

fun symbol :: "piece \<Rightarrow> string" where
  "symbol (Piece s) = s"
| "symbol BombPiece = ''B''"
| "symbol TeleportPiece = ''T''"

section \<open>Gravity\<close>

text \<open>
  The body of the two nested \<open>for\<close> loops of \<open>gravity_decorator\<close> at one \<open>(row, column)\<close>:
  an occupied cell above a blank one moves down and sets the flag \<open>moved\<close>.
\<close>

definition fall_step :: "nat \<Rightarrow> nat \<Rightarrow> grid \<times> bool \<Rightarrow> grid \<times> bool" where
  "fall_step column row gm =
     (case gm of (g, moved) \<Rightarrow>
        if g ! row ! column \<noteq> '' '' \<and> g ! (row + 1) ! column = '' ''
        then (set_cell (set_cell g (row + 1) column (g ! row ! column)) row column '' '', True)
        else (g, moved))"

text \<open>\<open>for row in range(board.rows - 2, -1, -1)\<close>: rows \<open>rows - 2\<close> down to \<open>0\<close>.\<close>

definition sweep_column :: "nat \<Rightarrow> nat \<Rightarrow> grid \<times> bool \<Rightarrow> grid \<times> bool" where
  "sweep_column r column gm = fold (fall_step column) (rev [0..<r - 1]) gm"

text \<open>One pass of the \<open>while\<close> body: \<open>moved = False\<close>, then every column in turn.\<close>

definition sweep :: "nat \<Rightarrow> nat \<Rightarrow> grid \<Rightarrow> grid \<times> bool" where
  "sweep r c g = fold (sweep_column r) [0..<c] (g, False)"

text \<open>
  \<open>while moved == True\<close>: the loop has no bound in the source, so it is a partial function
  whose value \<open>None\<close> stands for a loop that never ends.
\<close>

partial_function (option) gravity_loop :: "nat \<Rightarrow> nat \<Rightarrow> grid \<Rightarrow> grid option" where
  "gravity_loop r c g =
     (case sweep r c g of (g', moved) \<Rightarrow> if moved then gravity_loop r c g' else Some g')"

declare gravity_loop.simps [code]

text \<open>
  The wrapper returned by the decorator: run the wrapped insertion, settle the whole grid,
  return what the insertion returned.
\<close>

definition gravity_decorator ::
  "(board \<Rightarrow> int \<Rightarrow> board \<times> bool) \<Rightarrow> board \<Rightarrow> int \<Rightarrow> (board \<times> bool) option" where
  "gravity_decorator insert_method b column =
     (case insert_method b column of (b1, insertion) \<Rightarrow>
        (case gravity_loop (rows b1) (columns b1) (grid b1) of
           None \<Rightarrow> None
         | Some g \<Rightarrow> Some (b1\<lparr>grid := g\<rparr>, insertion)))"

section \<open>Placement\<close>

text \<open>
  \<open>Piece.insert\<close>: the column is 1-based; the rows are scanned from the bottom for the first
  blank slot.  The result is the board and the boolean the method returns.
\<close>

definition Piece_insert :: "string \<Rightarrow> board \<Rightarrow> int \<Rightarrow> board \<times> bool" where
  "Piece_insert smb b column =
     (let column_i0 = column - 1 in
      if \<not> (0 \<le> column_i0 \<and> column_i0 < int (columns b)) then (b, False)
      else (case find (\<lambda>row. grid b ! row ! nat column_i0 = '' '') (rev [0..<rows b]) of
              Some row \<Rightarrow> (b\<lparr>grid := set_cell (grid b) row (nat column_i0) smb\<rparr>, True)
            | None \<Rightarrow> (b, False)))"

text \<open>
  The search both subclasses use to find where their piece landed: from the bottom row up,
  the first cell of the column holding the symbol, and \<open>-1\<close> when there is none.
\<close>

definition find_symbol_row :: "board \<Rightarrow> int \<Rightarrow> string \<Rightarrow> int" where
  "find_symbol_row b column_i0 smb =
     (case find (\<lambda>row. grid b ! row ! nat column_i0 = smb) (rev [0..<rows b]) of
        Some row \<Rightarrow> int row
      | None \<Rightarrow> - 1)"

text \<open>The guarded assignment inside the two loops of the explosion.\<close>

definition clear_target :: "int \<Rightarrow> int \<Rightarrow> int \<times> int \<Rightarrow> board \<Rightarrow> board" where
  "clear_target inserted_row column_i0 d b =
     (let target_row = inserted_row + fst d; target_column = column_i0 + snd d in
      if 0 \<le> target_row \<and> target_row < int (rows b)
         \<and> 0 \<le> target_column \<and> target_column < int (columns b)
      then b\<lparr>grid := set_cell (grid b) (nat target_row) (nat target_column) '' ''\<rparr>
      else b)"

text \<open>\<open>for row in range(-1, 2): for column in range(-1, 2)\<close>, in the order of the source.\<close>

definition offsets :: "(int \<times> int) list" where
  "offsets = concat (map (\<lambda>row. map (\<lambda>column. (row, column)) [- 1, 0, 1]) [- 1, 0, 1])"

text \<open>The body of \<open>BombPiece.insert\<close>, before the decorator.\<close>

definition BombPiece_insert_body :: "board \<Rightarrow> int \<Rightarrow> board \<times> bool" where
  "BombPiece_insert_body b column =
     (case Piece_insert ''B'' b column of (b1, inserted) \<Rightarrow>
        if \<not> inserted then (b1, False)
        else (let column_i0 = column - 1;
                  inserted_row = find_symbol_row b1 column_i0 ''B''
              in (fold (clear_target inserted_row column_i0) offsets b1, True)))"

text \<open>
  The body of \<open>TeleportPiece.insert\<close>.  The source computes the mirror through halves,
  \<open>int(2 * ((rows - 1) / 2) - inserted_row)\<close>; halving and doubling are exact in binary
  floating point for every dimension below \<open>2^53\<close>, so the value is the integer
  \<open>(rows - 1) - inserted_row\<close>.  The write \<open>board.grid[inserted_row][column_i0]\<close> comes
  after a successful insertion, where the search has found a row.
\<close>

definition TeleportPiece_insert_body :: "board \<Rightarrow> int \<Rightarrow> board \<times> bool" where
  "TeleportPiece_insert_body b column =
     (case Piece_insert ''T'' b column of (b1, inserted) \<Rightarrow>
        if \<not> inserted then (b1, False)
        else (let column_i0 = column - 1;
                  inserted_row = find_symbol_row b1 column_i0 ''T'';
                  b2 = b1\<lparr>grid := set_cell (grid b1) (nat inserted_row) (nat column_i0) '' ''\<rparr>;
                  mirrored_row = (int (rows b2) - 1) - inserted_row;
                  mirrored_column = (int (columns b2) - 1) - column_i0;
                  found = (0 \<le> mirrored_row \<and> mirrored_row < int (rows b2)
                           \<and> 0 \<le> mirrored_column \<and> mirrored_column < int (columns b2)
                           \<and> grid b2 ! nat mirrored_row ! nat mirrored_column \<noteq> '' '')
              in if found
                 then (let symbol_to_teleport = grid b2 ! nat mirrored_row ! nat mirrored_column;
                           b3 = b2\<lparr>grid := set_cell (grid b2) (nat mirrored_row)
                                               (nat mirrored_column) '' ''\<rparr>
                       in (case find (\<lambda>row. grid b3 ! row ! nat column_i0 = '' '')
                                     (rev [0..<rows b3]) of
                             Some row \<Rightarrow>
                               (b3\<lparr>grid := set_cell (grid b3) row (nat column_i0)
                                                    symbol_to_teleport\<rparr>, True)
                           | None \<Rightarrow> (b3, True)))
                 else (b2, True)))"

text \<open>
  Method dispatch of \<open>piece.insert(board, column)\<close>: only the two subclasses are decorated.
  \<open>None\<close> is a gravity loop that does not return.
\<close>

fun insert_piece :: "piece \<Rightarrow> board \<Rightarrow> int \<Rightarrow> (board \<times> bool) option" where
  "insert_piece (Piece s) b column = Some (Piece_insert s b column)"
| "insert_piece BombPiece b column = gravity_decorator BombPiece_insert_body b column"
| "insert_piece TeleportPiece b column = gravity_decorator TeleportPiece_insert_body b column"

section \<open>Players\<close>

record player =
  name :: string
  player_symbol :: string
  pieces :: "piece list"

definition Player :: "string \<Rightarrow> string \<Rightarrow> player" where
  "Player n s = \<lparr>name = n, player_symbol = s, pieces = []\<rparr>"

text \<open>
  \<open>Player.add_piece\<close>: one pass of the loop body for each element of \<open>range(quantity)\<close>.
  The class of the new piece depends on the symbol alone.
\<close>

definition new_piece :: "string \<Rightarrow> piece" where
  "new_piece s = (if s = ''B'' then BombPiece else if s = ''T'' then TeleportPiece else Piece s)"

definition add_piece :: "player \<Rightarrow> string \<Rightarrow> nat \<Rightarrow> player" where
  "add_piece p s quantity =
     fold (\<lambda>x q. q\<lparr>pieces := pieces q @ [new_piece s]\<rparr>) [0..<quantity] p"

text \<open>
  \<open>Player.choose_piece\<close>.  Reading the line, splitting it and calling \<open>int\<close> on the second
  token belong to the console; the argument is their result, \<open>None\<close> for a line that is
  not two tokens with an integer second.  The first piece of the collection whose symbol is
  the chosen one is popped and returned with the column.
\<close>

definition choose_piece :: "player \<Rightarrow> (string \<times> int) option \<Rightarrow> (piece \<times> int \<times> player) option" where
  "choose_piece p user_input =
     (case user_input of
        None \<Rightarrow> None
      | Some (chosen, column) \<Rightarrow>
          (case find (\<lambda>i. symbol (pieces p ! i) = chosen) [0..<length (pieces p)] of
             None \<Rightarrow> None
           | Some i \<Rightarrow>
               Some (pieces p ! i, column,
                     p\<lparr>pieces := take i (pieces p) @ drop (Suc i) (pieces p)\<rparr>)))"


section \<open>The game\<close>

text \<open>\<open>current_player\<close> is kept as the index of the player in \<open>players\<close>.\<close>

record game =
  board :: board
  players :: "player list"
  current_player :: nat

text \<open>
  \<open>Game.__init__\<close> followed by \<open>Game.setup\<close>, from the two accepted answers
  \<open>name symbol\<close> on: the players, their pieces, and player one to move.
\<close>

definition Game_setup :: "nat \<Rightarrow> nat \<Rightarrow> string \<Rightarrow> string \<Rightarrow> string \<Rightarrow> string \<Rightarrow> game" where
  "Game_setup r c name1 symbol1 name2 symbol2 =
     (let total = r * c;
          teleport_total = total div 10;
          bomb_total = total div 20;
          quantityp2 = total div 2;
          quantityp1 = (if total mod 2 \<noteq> 0 then total div 2 + 1 else total div 2);
          player1 = add_piece (add_piece (add_piece (Player name1 symbol1) symbol1 quantityp1)
                                 ''T'' teleport_total) ''B'' bomb_total;
          player2 = add_piece (add_piece (add_piece (Player name2 symbol2) symbol2 quantityp2)
                                 ''T'' teleport_total) ''B'' bomb_total
      in \<lparr>board = Board r c, players = [player1, player2], current_player = 0\<rparr>)"

subsection \<open>The check anchored at the inserted piece\<close>

text \<open>
  \<open>grid[r][c]\<close> as Python reads it: a negative index counts from the end.  The loops below
  never leave the range \<open>[-n, n)\<close> in which Python accepts an index.
\<close>

definition py_index :: "'a list \<Rightarrow> int \<Rightarrow> 'a" where
  "py_index xs i = xs ! nat (if i < 0 then int (length xs) + i else i)"

definition py_cell :: "board \<Rightarrow> int \<Rightarrow> int \<Rightarrow> string" where
  "py_cell b r c = py_index (py_index (grid b) r) c"

text \<open>
  The eight \<open>while\<close> loops of the check differ in the step they take and in the bounds they
  test before reading; one constructor stands for each, in the order of the source.
\<close>

datatype direction =
  Leftward | Rightward | UpLeft | DownRight | UpRight | DownLeft | Upward | Downward

fun delta :: "direction \<Rightarrow> int \<times> int" where
  "delta Leftward = (0, - 1)"
| "delta Rightward = (0, 1)"
| "delta UpLeft = (- 1, - 1)"
| "delta DownRight = (1, 1)"
| "delta UpRight = (- 1, 1)"
| "delta DownLeft = (1, - 1)"
| "delta Upward = (- 1, 0)"
| "delta Downward = (1, 0)"

fun in_range :: "board \<Rightarrow> direction \<Rightarrow> int \<Rightarrow> int \<Rightarrow> bool" where
  "in_range b Leftward r c = (c \<ge> 0)"
| "in_range b Rightward r c = (c < int (columns b))"
| "in_range b UpLeft r c = (r \<ge> 0 \<and> c \<ge> 0)"
| "in_range b DownRight r c = (r < int (rows b) \<and> c < int (columns b))"
| "in_range b UpRight r c = (r \<ge> 0 \<and> c < int (columns b))"
| "in_range b DownLeft r c = (r < int (rows b) \<and> c \<ge> 0)"
| "in_range b Upward r c = (r \<ge> 0)"
| "in_range b Downward r c = (r < int (rows b))"

text \<open>
  One loop, started at \<open>(r, c)\<close>: the number of times its counter is incremented, and the
  coordinates of the cells it reads, in order.  The read happens only when the bounds
  test before it has passed.
\<close>

function walk :: "board \<Rightarrow> string \<Rightarrow> direction \<Rightarrow> int \<Rightarrow> int \<Rightarrow> nat \<times> (int \<times> int) list" where
  "walk b s d r c =
     (if in_range b d r c
      then (if py_cell b r c = s
            then (case walk b s d (r + fst (delta d)) (c + snd (delta d)) of
                    (n, reads) \<Rightarrow> (Suc n, (r, c) # reads))
            else (0, [(r, c)]))
      else (0, []))"
  by pat_completeness auto
termination
  by (relation "measure (\<lambda>(b, s, d, r, c).
        case d of Leftward \<Rightarrow> nat (c + 1)
                | Rightward \<Rightarrow> nat (int (columns b) - c)
                | UpLeft \<Rightarrow> nat (r + 1)
                | DownRight \<Rightarrow> nat (int (rows b) - r)
                | UpRight \<Rightarrow> nat (r + 1)
                | DownLeft \<Rightarrow> nat (int (rows b) - r)
                | Upward \<Rightarrow> nat (r + 1)
                | Downward \<Rightarrow> nat (int (rows b) - r))")
     (auto split: direction.splits)

declare walk.simps [simp del]

definition walk_from :: "board \<Rightarrow> string \<Rightarrow> direction \<Rightarrow> int \<Rightarrow> int \<Rightarrow> nat \<times> (int \<times> int) list" where
  "walk_from b s d inserted_row column_i0 =
     walk b s d (inserted_row + fst (delta d)) (column_i0 + snd (delta d))"

text \<open>A counter starts at 1 and is incremented by the loops of its two directions.\<close>

definition counter :: "board \<Rightarrow> string \<Rightarrow> direction \<Rightarrow> direction \<Rightarrow> int \<Rightarrow> int \<Rightarrow> nat" where
  "counter b s d1 d2 inserted_row column_i0 =
     1 + fst (walk_from b s d1 inserted_row column_i0)
       + fst (walk_from b s d2 inserted_row column_i0)"

definition current_player_wins :: "board \<Rightarrow> string \<Rightarrow> int \<Rightarrow> int \<Rightarrow> bool" where
  "current_player_wins b s inserted_row column_i0 =
     (counter b s Leftward Rightward inserted_row column_i0 \<ge> 4
      \<or> counter b s UpLeft DownRight inserted_row column_i0 \<ge> 4
      \<or> counter b s UpRight DownLeft inserted_row column_i0 \<ge> 4
      \<or> counter b s Upward Downward inserted_row column_i0 \<ge> 4)"

text \<open>Every grid read of the anchored check, in the order in which the source makes them.\<close>

definition anchored_reads :: "board \<Rightarrow> string \<Rightarrow> int \<Rightarrow> int \<Rightarrow> (int \<times> int) list" where
  "anchored_reads b s inserted_row column_i0 =
     concat (map (\<lambda>d. snd (walk_from b s d inserted_row column_i0))
       [Leftward, Rightward, UpLeft, DownRight, UpRight, DownLeft, Upward, Downward])"

text \<open>
  The row \<open>Game.begin\<close> takes for the inserted one: from the top, the first cell of the
  column that holds the symbol of the piece, and \<open>-1\<close> when no cell does.
\<close>

definition inserted_row_of :: "board \<Rightarrow> int \<Rightarrow> string \<Rightarrow> int" where
  "inserted_row_of b column_i0 s =
     (case find (\<lambda>row. grid b ! row ! nat column_i0 = s) [0..<rows b] of
        Some row \<Rightarrow> int row
      | None \<Rightarrow> - 1)"

subsection \<open>The sweep for the other player\<close>

text \<open>
  Each \<open>for x in range(1, 4)\<close> loop stops at the first cell that is out of the grid or
  holds another symbol.
\<close>

definition horizontal_count :: "board \<Rightarrow> string \<Rightarrow> nat \<Rightarrow> nat \<Rightarrow> nat" where
  "horizontal_count b s row column =
     1 + length (takeWhile (\<lambda>x. column + x < columns b \<and> grid b ! row ! (column + x) = s)
                  [1..<4])"

definition vertical_count :: "board \<Rightarrow> string \<Rightarrow> nat \<Rightarrow> nat \<Rightarrow> nat" where
  "vertical_count b s row column =
     1 + length (takeWhile (\<lambda>x. row + x < rows b \<and> grid b ! (row + x) ! column = s) [1..<4])"

definition bottom_right :: "board \<Rightarrow> string \<Rightarrow> nat \<Rightarrow> nat \<Rightarrow> nat" where
  "bottom_right b s row column =
     1 + length (takeWhile (\<lambda>x. row + x < rows b \<and> column + x < columns b
                               \<and> grid b ! (row + x) ! (column + x) = s) [1..<4])"

definition bottom_left :: "board \<Rightarrow> string \<Rightarrow> nat \<Rightarrow> nat \<Rightarrow> nat" where
  "bottom_left b s row column =
     1 + length (takeWhile (\<lambda>x. row + x < rows b \<and> int column - int x \<ge> 0
                               \<and> grid b ! (row + x) ! (column - x) = s) [1..<4])"

definition otherplayer_wins :: "board \<Rightarrow> string \<Rightarrow> bool" where
  "otherplayer_wins b s =
     list_ex (\<lambda>row. list_ex (\<lambda>column.
        grid b ! row ! column = s
        \<and> (horizontal_count b s row column \<ge> 4 \<or> vertical_count b s row column \<ge> 4
           \<or> bottom_right b s row column \<ge> 4 \<or> bottom_left b s row column \<ge> 4))
        [0..<columns b]) [0..<rows b]"

definition board_is_full :: "board \<Rightarrow> bool" where
  "board_is_full b = (\<forall>row \<in> set (grid b). \<forall>slot \<in> set row. slot \<noteq> '' '')"

subsection \<open>One pass of the main loop\<close>

text \<open>
  What one pass of \<open>while playing\<close> leaves behind.  \<open>Win i\<close> is the message
  \<open>"{players[i].name} wins!"\<close>, \<open>Draw\<close> the message \<open>"It was a draw!"\<close>.
\<close>

datatype outcome = Draw | Win nat

datatype turn_result =
  Skipped           \<comment> \<open>the current player had no piece; the other one is to move\<close>
| Reprompt          \<comment> \<open>\<open>continue\<close> with the same player to move\<close>
| Finished outcome  \<comment> \<open>\<open>playing = False\<close>\<close>
| Next              \<comment> \<open>the players were switched\<close>

definition otherplayer :: "game \<Rightarrow> nat" where
  "otherplayer gm = (if current_player gm = 0 then 1 else 0)"

text \<open>
  The part of the pass after a successful insertion: the two checks and the choice of the
  outcome, on the game as the insertion left it.
\<close>

definition win_resolution :: "game \<Rightarrow> piece \<Rightarrow> int \<Rightarrow> game \<times> turn_result" where
  "win_resolution gm piece column =
     (let column_i0 = column - 1;
          inserted_row = inserted_row_of (board gm) column_i0 (symbol piece);
          current_wins = current_player_wins (board gm) (symbol piece) inserted_row column_i0;
          other_wins = otherplayer_wins (board gm)
                         (player_symbol (players gm ! otherplayer gm));
          no_more_pieces = (pieces (players gm ! 0) = [] \<and> pieces (players gm ! 1) = [])
      in if current_wins \<and> other_wins then (gm, Finished Draw)
         else if current_wins then (gm, Finished (Win (current_player gm)))
         else if other_wins then (gm, Finished (Win (current_player gm)))
         else if board_is_full (board gm) \<or> no_more_pieces then (gm, Finished Draw)
         else (gm\<lparr>current_player := otherplayer gm\<rparr>, Next))"

text \<open>
  One pass of the loop of \<open>Game.begin\<close>.  The piece is popped by \<open>choose_piece\<close> before
  the insertion is tried.  \<open>None\<close> is a pass whose gravity loop never returns.
\<close>

definition begin_turn :: "game \<Rightarrow> (string \<times> int) option \<Rightarrow> (game \<times> turn_result) option" where
  "begin_turn gm user_input =
     (if pieces (players gm ! current_player gm) = []
      then Some (gm\<lparr>current_player := otherplayer gm\<rparr>, Skipped)
      else (case choose_piece (players gm ! current_player gm) user_input of
              None \<Rightarrow> Some (gm, Reprompt)
            | Some (piece, column, p') \<Rightarrow>
                (let gm1 = gm\<lparr>players := (players gm)[current_player gm := p']\<rparr> in
                 case insert_piece piece (board gm1) column of
                   None \<Rightarrow> None
                 | Some (b', insert_success) \<Rightarrow>
                     if \<not> insert_success then Some (gm1\<lparr>board := b'\<rparr>, Reprompt)
                     else Some (win_resolution (gm1\<lparr>board := b'\<rparr>) piece column))))"

text \<open>
  The player a pass asks for a move: the current player, unless they hold no piece; then
  the pass asks nobody and hands the turn to the other player.
\<close>

definition prompted :: "game \<Rightarrow> nat option" where
  "prompted gm =
     (if pieces (players gm ! current_player gm) = [] then None else Some (current_player gm))"

text \<open>
  The loop of \<open>Game.begin\<close> on the lines the console delivers, up to the end of the game
  or of the lines.  A pass that skips a player without pieces reads no line, and the
  source puts no bound on the number of passes.  The result is the game and the outcome,
  if one has been reached.
\<close>

partial_function (option) begin_loop ::
  "game \<Rightarrow> (string \<times> int) option list \<Rightarrow> (game \<times> outcome option) option" where
  "begin_loop gm inputs =
     (if inputs = [] then Some (gm, None)
      else (case begin_turn gm (hd inputs) of
              None \<Rightarrow> None
            | Some (gm', res) \<Rightarrow>
                if res = Skipped then begin_loop gm' inputs
                else if res = Reprompt \<or> res = Next then begin_loop gm' (tl inputs)
                else Some (gm', case res of Finished out \<Rightarrow> Some out | _ \<Rightarrow> None)))"

declare begin_loop.simps [code]

section \<open>Properties of grids\<close>

text \<open>A grid has the declared dimensions: \<open>r\<close> rows of \<open>c\<close> cells each.\<close>

definition wf_grid :: "nat \<Rightarrow> nat \<Rightarrow> grid \<Rightarrow> bool" where
  "wf_grid r c g = (length g = r \<and> (\<forall>row \<in> set g. length row = c))"

definition wf_board :: "board \<Rightarrow> bool" where
  "wf_board b = wf_grid (rows b) (columns b) (grid b)"

text \<open>No floating piece: no occupied cell has a blank cell directly beneath it.\<close>

definition settled_grid :: "nat \<Rightarrow> nat \<Rightarrow> grid \<Rightarrow> bool" where
  "settled_grid r c g =
     (\<forall>row \<in> set [0..<r - 1]. \<forall>column \<in> set [0..<c].
        \<not> (g ! row ! column \<noteq> '' '' \<and> g ! (row + 1) ! column = '' ''))"

definition settled :: "board \<Rightarrow> bool" where
  "settled b = settled_grid (rows b) (columns b) (grid b)"

text \<open>The number of occupied cells of a row, and of the whole grid.\<close>

definition occupied_in :: "string list \<Rightarrow> nat" where
  "occupied_in row = length (filter (\<lambda>x. x \<noteq> '' '') row)"

definition occupied_count :: "grid \<Rightarrow> nat" where
  "occupied_count g = sum_list (map occupied_in g)"

text \<open>
  The height of an occupied cell above its support is the number of empty cells beneath
  it in its column: the number of rows it still has to fall.  \<open>gaps\<close> sums it over a
  column read from the top, \<open>height_above_support\<close> over the columns of the grid.
\<close>

definition column_of :: "grid \<Rightarrow> nat \<Rightarrow> string list" where
  "column_of g j = map (\<lambda>row. row ! j) g"

fun gaps :: "string list \<Rightarrow> nat" where
  "gaps [] = 0"
| "gaps (x # xs) = (if x \<noteq> '' '' then length (filter (\<lambda>y. y = '' '') xs) else 0) + gaps xs"

definition height_above_support :: "nat \<Rightarrow> grid \<Rightarrow> nat" where
  "height_above_support c g = sum_list (map (\<lambda>j. gaps (column_of g j)) [0..<c])"

text \<open>The occupied cells of a grid counted with a weight for each row.\<close>

definition weighted :: "(nat \<Rightarrow> nat) \<Rightarrow> grid \<Rightarrow> nat" where
  "weighted w g = (\<Sum>i = 0..<length g. w i * occupied_in (g ! i))"

text \<open>
  What holds of the grid and the flag at every point of a pass that started on \<open>g0\<close>: the
  dimensions and the number of occupied cells are those of \<open>g0\<close>, and either nothing has
  moved and the grid is still \<open>g0\<close>, or the flag is up and the height above support has
  dropped.
\<close>

definition sweep_inv :: "nat \<Rightarrow> nat \<Rightarrow> grid \<Rightarrow> grid \<times> bool \<Rightarrow> bool" where
  "sweep_inv r c g0 gm =
     (wf_grid r c (fst gm) \<and> occupied_count (fst gm) = occupied_count g0
      \<and> (if snd gm then height_above_support c (fst gm) < height_above_support c g0
          else fst gm = g0))"

text \<open>
  The boards a game can show: the empty board, and whatever the insertion of a piece into
  any column leaves, accepted or not.  The pieces of a game are those \<open>add_piece\<close>
  makes.
\<close>

inductive reachable :: "board \<Rightarrow> bool" where
  start: "reachable (Board r c)"
| place: "reachable b \<Longrightarrow> insert_piece (new_piece s) b column = Some (b', ok) \<Longrightarrow>
          reachable b'"


section \<open>The placement rules as the specification words them\<close>

text \<open>
  \<open>lowest_empty_row(column)\<close> of the specification: scanning bottom to top, the first
  empty row, or nothing when the column is full.  It is the landing row of a placement.
\<close>

definition spec_lowest_empty_row :: "nat \<Rightarrow> grid \<Rightarrow> nat \<Rightarrow> nat option" where
  "spec_lowest_empty_row r g c = find (\<lambda>row. g ! row ! c = '' '') (rev [0..<r])"

text \<open>
  The clearing step of an AreaClear placement that landed at \<open>(r, c)\<close>: exactly the cells
  within Chebyshev distance 1 of \<open>(r, c)\<close> become empty, every other cell keeps its value.
\<close>

definition spec_area_clear :: "nat \<Rightarrow> nat \<Rightarrow> grid \<Rightarrow> grid" where
  "spec_area_clear r c g =
     map (\<lambda>i. map (\<lambda>j. if \<bar>int i - int r\<bar> \<le> 1 \<and> \<bar>int j - int c\<bar> \<le> 1 then '' ''
                         else g ! i ! j) [0..<length (g ! i)]) [0..<length g]"

text \<open>
  The effect of a Swap placement that landed at \<open>(r, c)\<close> on the grid \<open>g\<close> it was played
  on, before normalization.  The placed piece does not stay.  When the mirror coordinate is
  in bounds, is not \<open>(r, c)\<close> itself and is occupied, its symbol is removed and inserted in
  column \<open>c\<close> at the lowest empty row; otherwise the grid is the one before the move.
\<close>

definition spec_swap :: "nat \<Rightarrow> nat \<Rightarrow> grid \<Rightarrow> nat \<Rightarrow> nat \<Rightarrow> grid" where
  "spec_swap rs cs g r c =
     (let mirror_row = (int rs - 1) - int r;
          mirror_col = (int cs - 1) - int c
      in if 0 \<le> mirror_row \<and> mirror_row < int rs \<and> 0 \<le> mirror_col \<and> mirror_col < int cs
            \<and> (nat mirror_row, nat mirror_col) \<noteq> (r, c)
            \<and> g ! nat mirror_row ! nat mirror_col \<noteq> '' ''
         then (let g2 = set_cell g (nat mirror_row) (nat mirror_col) '' '' in
               case spec_lowest_empty_row rs g2 c of
                 Some r2 \<Rightarrow> set_cell g2 r2 c (g ! nat mirror_row ! nat mirror_col)
               | None \<Rightarrow> g2)
         else g)"

section \<open>Concrete boards and games\<close>

text \<open>A grid of three rows and two columns with two floating pieces.\<close>

definition floating_grid :: grid where
  "floating_grid = [[''X'', '' ''], ['' '', ''O''], ['' '', '' '']]"

text \<open>
  A board with the dimensions of another and a grid of these dimensions; every insertion
  leaves such a board.
\<close>

definition same_dims :: "board \<Rightarrow> board \<Rightarrow> bool" where
  "same_dims b b' =
     (rows b' = rows b \<and> columns b' = columns b \<and> wf_grid (rows b) (columns b) (grid b'))"

text \<open>The board after \<open>X\<close> was dropped into column 1 of the empty board of two rows and columns.\<close>

definition small_board :: board where
  "small_board = \<lparr>rows = 2, columns = 2, grid = [['' '', '' ''], [''X'', '' '']]\<rparr>"

text \<open>
  A game on the usual board of six rows and seven columns, Ann playing \<open>O\<close> and Bob \<open>X\<close>,
  and two positions of such a game.
\<close>

definition new_game :: game where
  "new_game = Game_setup 6 7 ''Ann'' ''O'' ''Bob'' ''X''"

text \<open>
  Bob to move; the \<open>O\<close> of column 4 stands on two \<open>X\<close>, beside three \<open>O\<close> on the floor.
\<close>

definition bomb_game :: game where
  "bomb_game =
     \<lparr>board = \<lparr>rows = 6, columns = 7,
        grid = [['' '', '' '', '' '', '' '', '' '', '' '', '' ''],
                ['' '', '' '', '' '', '' '', '' '', '' '', '' ''],
                ['' '', '' '', '' '', '' '', '' '', '' '', '' ''],
                ['' '', '' '', '' '', ''O'', '' '', '' '', '' ''],
                ['' '', '' '', '' '', ''X'', '' '', '' '', '' ''],
                [''O'', ''O'', ''O'', ''X'', '' '', '' '', ''X'']]\<rparr>,
      players = [\<lparr>name = ''Ann'', player_symbol = ''O'',
                   pieces = replicate 17 (Piece ''O'') @ replicate 4 TeleportPiece
                            @ replicate 2 BombPiece\<rparr>,
                 \<lparr>name = ''Bob'', player_symbol = ''X'',
                   pieces = replicate 18 (Piece ''X'') @ replicate 4 TeleportPiece
                            @ replicate 2 BombPiece\<rparr>],
      current_player = 1\<rparr>"

text \<open>Bob to move; Ann has four \<open>O\<close> in column 7, Bob three \<open>X\<close> on the floor.\<close>

definition draw_game :: game where
  "draw_game =
     \<lparr>board = \<lparr>rows = 6, columns = 7,
        grid = [['' '', '' '', '' '', '' '', '' '', '' '', '' ''],
                ['' '', '' '', '' '', '' '', '' '', '' '', '' ''],
                ['' '', '' '', '' '', '' '', '' '', '' '', ''O''],
                ['' '', '' '', '' '', '' '', '' '', '' '', ''O''],
                ['' '', '' '', '' '', '' '', '' '', '' '', ''O''],
                [''X'', ''X'', ''X'', '' '', '' '', '' '', ''O'']]\<rparr>,
      players = [\<lparr>name = ''Ann'', player_symbol = ''O'',
                   pieces = replicate 17 (Piece ''O'') @ replicate 4 TeleportPiece
                            @ replicate 2 BombPiece\<rparr>,
                 \<lparr>name = ''Bob'', player_symbol = ''X'',
                   pieces = replicate 18 (Piece ''X'') @ replicate 4 TeleportPiece
                            @ replicate 2 BombPiece\<rparr>],
      current_player = 1\<rparr>"

text \<open>The position after Bob has played a bomb into column 5 of \<open>bomb_game\<close>.\<close>

definition bombed_game :: game where
  "bombed_game =
     \<lparr>board = \<lparr>rows = 6, columns = 7,
        grid = [['' '', '' '', '' '', '' '', '' '', '' '', '' ''],
                ['' '', '' '', '' '', '' '', '' '', '' '', '' ''],
                ['' '', '' '', '' '', '' '', '' '', '' '', '' ''],
                ['' '', '' '', '' '', '' '', '' '', '' '', '' ''],
                ['' '', '' '', '' '', '' '', '' '', '' '', '' ''],
                [''O'', ''O'', ''O'', ''O'', '' '', '' '', ''X'']]\<rparr>,
      players = [\<lparr>name = ''Ann'', player_symbol = ''O'',
                   pieces = replicate 17 (Piece ''O'') @ replicate 4 TeleportPiece
                            @ replicate 2 BombPiece\<rparr>,
                 \<lparr>name = ''Bob'', player_symbol = ''X'',
                   pieces = replicate 18 (Piece ''X'') @ replicate 4 TeleportPiece
                            @ replicate 1 BombPiece\<rparr>],
      current_player = 1\<rparr>"



text \<open>
  A game on a board of two rows and two columns, where each player starts with two
  pieces: the position after one move of each, and the same position after Ann has asked
  for her last \<open>O\<close> in column 9.
\<close>

definition last_piece_game :: game where
  "last_piece_game =
     \<lparr>board = \<lparr>rows = 2, columns = 2, grid = [['' '', '' ''], [''O'', ''X'']]\<rparr>,
      players = [\<lparr>name = ''Ann'', player_symbol = ''O'', pieces = [Piece ''O'']\<rparr>,
                 \<lparr>name = ''Bob'', player_symbol = ''X'', pieces = [Piece ''X'']\<rparr>],
      current_player = 0\<rparr>"


text \<open>The new game after Ann has played a teleport piece into column 2.\<close>

definition teleported_game :: game where
  "teleported_game =
     \<lparr>board = Board 6 7,
      players = [\<lparr>name = ''Ann'', player_symbol = ''O'',
                   pieces = replicate 21 (Piece ''O'') @ replicate 3 TeleportPiece
                            @ replicate 2 BombPiece\<rparr>,
                 \<lparr>name = ''Bob'', player_symbol = ''X'',
                   pieces = replicate 21 (Piece ''X'') @ replicate 4 TeleportPiece
                            @ replicate 2 BombPiece\<rparr>],
      current_player = 1\<rparr>"

section \<open>Coordinates of grid reads\<close>

text \<open>A coordinate inside the declared dimensions \<open>[0, rows) \<times> [0, columns)\<close>.\<close>

definition inside :: "board \<Rightarrow> int \<times> int \<Rightarrow> bool" where
  "inside b rc = (0 \<le> fst rc \<and> fst rc < int (rows b) \<and> 0 \<le> snd rc \<and> snd rc < int (columns b))"

text \<open>
  What a loop of the anchored check does not test: the bounds on the axis it does not
  move along, and the bound behind it.
\<close>

fun off_axis :: "board \<Rightarrow> direction \<Rightarrow> int \<Rightarrow> int \<Rightarrow> bool" where
  "off_axis b Leftward r c = (0 \<le> r \<and> r < int (rows b) \<and> c < int (columns b))"
| "off_axis b Rightward r c = (0 \<le> r \<and> r < int (rows b) \<and> 0 \<le> c)"
| "off_axis b UpLeft r c = (r < int (rows b) \<and> c < int (columns b))"
| "off_axis b DownRight r c = (0 \<le> r \<and> 0 \<le> c)"
| "off_axis b UpRight r c = (r < int (rows b) \<and> 0 \<le> c)"
| "off_axis b DownLeft r c = (0 \<le> r \<and> c < int (columns b))"
| "off_axis b Upward r c = (r < int (rows b) \<and> 0 \<le> c \<and> c < int (columns b))"
| "off_axis b Downward r c = (0 \<le> r \<and> 0 \<le> c \<and> c < int (columns b))"

section \<open>Symbols on the board\<close>

text \<open>Every cell of the grid holds one of the strings of \<open>A\<close>.\<close>

definition cells_in :: "nat \<Rightarrow> nat \<Rightarrow> string set \<Rightarrow> grid \<Rightarrow> bool" where
  "cells_in r c A g = (\<forall>i<r. \<forall>j<c. g ! i ! j \<in> A)"

text \<open>No cell holds the symbol of a bomb or of a teleport piece.\<close>

definition plain_cells :: "board \<Rightarrow> bool" where
  "plain_cells b = cells_in (rows b) (columns b) {x. x \<noteq> ''B'' \<and> x \<noteq> ''T''} (grid b)"

section \<open>Facts about grids and gravity\<close>

lemma length_set_cell [simp]: "length (set_cell g i j v) = length g"
  by (simp add: set_cell_def)

lemma wf_grid_set_cell: "wf_grid r c g \<Longrightarrow> wf_grid r c (set_cell g i j v)"
  unfolding wf_grid_def set_cell_def
  by (metis in_set_conv_nth length_list_update nth_list_update_eq nth_list_update_neq)

lemma wf_grid_nth: "wf_grid r c g \<Longrightarrow> i < r \<Longrightarrow> length (g ! i) = c"
  by (simp add: wf_grid_def)

lemma nth_set_cell:
  "i < length g \<Longrightarrow> j < length (g ! i) \<Longrightarrow>
   set_cell g i j v ! i' ! j' = (if i' = i \<and> j' = j then v else g ! i' ! j')"
  by (auto simp: set_cell_def nth_list_update)

lemma occupied_in_update:
  "j < length row \<Longrightarrow>
   occupied_in (row[j := v]) + of_bool (row ! j \<noteq> '' '')
     = occupied_in row + of_bool (v \<noteq> '' '')"
proof (induction row arbitrary: j)
  case Nil
  then show ?case by simp
next
  case (Cons a row)
  show ?case
  proof (cases j)
    case 0
    then show ?thesis by (simp add: occupied_in_def)
  next
    case (Suc k)
    with Cons.prems have "k < length row" by simp
    from Cons.IH [OF this] show ?thesis using Suc by (simp add: occupied_in_def)
  qed
qed

lemma weighted_set_cell:
  assumes "i < length g" "j < length (g ! i)"
  shows "weighted w (set_cell g i j v) + w i * of_bool (g ! i ! j \<noteq> '' '')
          = weighted w g + w i * of_bool (v \<noteq> '' '')"
proof -
  let ?g' = "set_cell g i j v"
  have fin: "finite {0..<length g}" and mem: "i \<in> {0..<length g}" using assms by auto
  have rest: "(\<Sum>k\<in>{0..<length g} - {i}. w k * occupied_in (?g' ! k))
            = (\<Sum>k\<in>{0..<length g} - {i}. w k * occupied_in (g ! k))"
    by (rule sum.cong) (auto simp: set_cell_def)
  have row: "?g' ! i = (g ! i)[j := v]" using assms by (simp add: set_cell_def)
  have a: "weighted w ?g' = w i * occupied_in ((g ! i)[j := v])
             + (\<Sum>k\<in>{0..<length g} - {i}. w k * occupied_in (g ! k))"
    unfolding weighted_def using sum.remove [OF fin mem, of "\<lambda>k. w k * occupied_in (?g' ! k)"] rest row
    by simp
  have b: "weighted w g = w i * occupied_in (g ! i)
             + (\<Sum>k\<in>{0..<length g} - {i}. w k * occupied_in (g ! k))"
    unfolding weighted_def using sum.remove [OF fin mem, of "\<lambda>k. w k * occupied_in (g ! k)"] by simp
  from occupied_in_update [OF assms(2), of v]
  have "w i * occupied_in ((g ! i)[j := v]) + w i * of_bool (g ! i ! j \<noteq> '' '')
        = w i * occupied_in (g ! i) + w i * of_bool (v \<noteq> '' '')"
    by (metis distrib_left)
  with a b show ?thesis by simp
qed

lemma occupied_count_weighted: "occupied_count g = weighted (\<lambda>_. 1) g"
  unfolding occupied_count_def weighted_def
  by (simp add: sum_list_sum_nth)

text \<open>A move of one cell takes one from the height above support of its column.\<close>

lemma gaps_move:
  "x \<noteq> '' '' \<Longrightarrow> gaps (xs @ '' '' # x # ys) + 1 = gaps (xs @ x # '' '' # ys)"
  by (induction xs) simp_all

lemma update_two:
  assumes "i + 1 < length xs"
  shows "xs[i + 1 := a, i := b] = take i xs @ b # a # drop (i + 2) xs"
proof -
  have d: "drop (Suc i) xs = xs ! (i + 1) # drop (i + 2) xs"
    using assms Cons_nth_drop_Suc [of "Suc i" xs] by simp
  have "xs[i + 1 := a, i := b] = take i (xs[i + 1 := a]) @ b # drop (Suc i) (xs[i + 1 := a])"
    using assms by (simp add: upd_conv_take_nth_drop)
  also have "take i (xs[i + 1 := a]) = take i xs" by simp
  also have "drop (Suc i) (xs[i + 1 := a]) = (drop (Suc i) xs)[0 := a]"
    by (simp add: drop_update_swap)
  also have "\<dots> = a # drop (i + 2) xs" by (simp add: d)
  finally show ?thesis .
qed

lemma split_two:
  "i + 1 < length xs \<Longrightarrow> xs = take i xs @ xs ! i # xs ! (i + 1) # drop (i + 2) xs"
  by (metis list_update_id update_two)

lemma column_of_set_cell:
  assumes "i < length g" "j < length (g ! i)"
  shows "column_of (set_cell g i j v) j'
         = (if j' = j then (column_of g j)[i := v] else column_of g j')"
proof (cases "j' = j")
  case True
  then show ?thesis using assms by (simp add: column_of_def set_cell_def map_update)
next
  case False
  have "(map (\<lambda>row. row ! j') g)[i := g ! i ! j'] = map (\<lambda>row. row ! j') g"
    using assms(1) list_update_id [of "map (\<lambda>row. row ! j') g" i] by simp
  with False show ?thesis by (simp add: column_of_def set_cell_def map_update)
qed

lemma height_above_support_move:
  assumes wf: "wf_grid r c g" and row: "row + 1 < r" and col: "column < c"
    and occ: "g ! row ! column \<noteq> '' ''" and emp: "g ! (row + 1) ! column = '' ''"
  shows "height_above_support c
           (set_cell (set_cell g (row + 1) column (g ! row ! column)) row column '' '') + 1
         = height_above_support c g"
proof -
  let ?x = "g ! row ! column"
  let ?g1 = "set_cell g (row + 1) column ?x"
  let ?g' = "set_cell ?g1 row column '' ''"
  let ?col = "column_of g column"
  have len: "length g = r" "length (g ! (row + 1)) = c" "length (g ! row) = c"
    using wf row by (simp_all add: wf_grid_def)
  have wf1: "wf_grid r c ?g1" using wf by (rule wf_grid_set_cell)
  have len1: "length ?g1 = r" "length (?g1 ! row) = c" using wf1 row by (simp_all add: wf_grid_def)
  have cols: "\<And>j. column_of ?g' j = (if j = column then ?col[row + 1 := ?x, row := '' ''] else column_of g j)"
    using column_of_set_cell [of row ?g1 column "'' ''"] column_of_set_cell [of "row + 1" g column ?x]
      len len1 row col by simp
  have lc: "row + 1 < length ?col" using len row by (simp add: column_of_def)
  have at: "?col ! row = ?x" "?col ! (row + 1) = '' ''"
    using len row emp by (simp_all add: column_of_def)
  have new: "?col[row + 1 := ?x, row := '' ''] = take row ?col @ '' '' # ?x # drop (row + 2) ?col"
    using lc by (rule update_two)
  have old: "?col = take row ?col @ ?x # '' '' # drop (row + 2) ?col"
    using split_two [OF lc] at by simp
  have g1: "gaps (?col[row + 1 := ?x, row := '' '']) + 1 = gaps ?col"
    using gaps_move [OF occ, of "take row ?col" "drop (row + 2) ?col"] new old by metis
  have fin: "finite {0..<c}" and mem: "column \<in> {0..<c}" using col by auto
  have rest: "(\<Sum>j\<in>{0..<c} - {column}. gaps (column_of ?g' j))
            = (\<Sum>j\<in>{0..<c} - {column}. gaps (column_of g j))"
    by (rule sum.cong) (use cols in auto)
  have a: "height_above_support c ?g' = gaps (?col[row + 1 := ?x, row := '' ''])
             + (\<Sum>j\<in>{0..<c} - {column}. gaps (column_of g j))"
    unfolding height_above_support_def interv_sum_list_conv_sum_set_nat
    using sum.remove [OF fin mem, of "\<lambda>j. gaps (column_of ?g' j)"] rest cols by simp
  have b: "height_above_support c g = gaps ?col
             + (\<Sum>j\<in>{0..<c} - {column}. gaps (column_of g j))"
    unfolding height_above_support_def interv_sum_list_conv_sum_set_nat
    using sum.remove [OF fin mem, of "\<lambda>j. gaps (column_of g j)"] by simp
  from a b g1 show ?thesis by simp
qed

text \<open>One move.\<close>

lemma fall_step_move:
  assumes wf: "wf_grid r c g" and row: "row + 1 < r" and col: "column < c"
    and occ: "g ! row ! column \<noteq> '' ''" and emp: "g ! (row + 1) ! column = '' ''"
  defines "g' \<equiv> set_cell (set_cell g (row + 1) column (g ! row ! column)) row column '' ''"
  shows "wf_grid r c g'" and "occupied_count g' = occupied_count g"
    and "height_above_support c g' < height_above_support c g"
proof -
  let ?g1 = "set_cell g (row + 1) column (g ! row ! column)"
  have len: "length g = r" and l1: "length (g ! (row + 1)) = c" and l0: "length (g ! row) = c"
    using wf row by (simp_all add: wf_grid_def)
  have wf1: "wf_grid r c ?g1" using wf by (rule wf_grid_set_cell)
  show "wf_grid r c g'" unfolding g'_def using wf1 by (rule wf_grid_set_cell)
  have len1: "length ?g1 = r" and l01: "length (?g1 ! row) = c"
    using wf1 row by (simp_all add: wf_grid_def)
  have c1: "?g1 ! row ! column = g ! row ! column"
    using row col len l1 by (simp add: nth_set_cell)
  have s1: "\<And>w. weighted w ?g1 = weighted w g + w (row + 1)"
    using weighted_set_cell [of "row + 1" g column _ "g ! row ! column"] row col len l1 occ emp
    by simp
  have s2: "\<And>w. weighted w g' + w row = weighted w ?g1"
    unfolding g'_def
    using weighted_set_cell [of row ?g1 column _ "'' ''"] row col len1 l01 occ c1
    by simp
  from s1 s2 have s: "\<And>w. weighted w g' + w row = weighted w g + w (row + 1)" by simp
  from s [of "\<lambda>_. 1"] show "occupied_count g' = occupied_count g"
    by (simp add: occupied_count_weighted)
  from height_above_support_move [OF wf row col occ emp]
  show "height_above_support c g' < height_above_support c g" by (simp add: g'_def)
qed


lemma fall_step_inv:
  assumes "sweep_inv r c g0 gm" "row + 1 < r" "column < c"
  shows "sweep_inv r c g0 (fall_step column row gm)"
proof (cases gm)
  case (Pair g m)
  with assms(1) have wf: "wf_grid r c g" and oc: "occupied_count g = occupied_count g0"
    and th: "height_above_support c g \<le> height_above_support c g0"
    by (auto simp: sweep_inv_def split: if_splits)
  show ?thesis
  proof (cases "g ! row ! column \<noteq> '' '' \<and> g ! (row + 1) ! column = '' ''")
    case True
    then show ?thesis
      using fall_step_move [OF wf assms(2,3)] oc th Pair
      by (simp add: fall_step_def sweep_inv_def)
  next
    case False
    then have "fall_step column row gm = gm" using Pair by (auto simp: fall_step_def)
    with assms(1) show ?thesis by simp
  qed
qed

lemma fold_fall_step_inv:
  "sweep_inv r c g0 gm \<Longrightarrow> \<forall>row \<in> set xs. row + 1 < r \<Longrightarrow> column < c \<Longrightarrow>
   sweep_inv r c g0 (fold (fall_step column) xs gm)"
  by (induction xs arbitrary: gm) (simp_all add: fall_step_inv)

lemma sweep_column_inv:
  "sweep_inv r c g0 gm \<Longrightarrow> column < c \<Longrightarrow> sweep_inv r c g0 (sweep_column r column gm)"
  unfolding sweep_column_def by (rule fold_fall_step_inv) auto

lemma fold_sweep_column_inv:
  "sweep_inv r c g0 gm \<Longrightarrow> \<forall>column \<in> set cs. column < c \<Longrightarrow>
   sweep_inv r c g0 (fold (sweep_column r) cs gm)"
  by (induction cs arbitrary: gm) (simp_all add: sweep_column_inv)

lemma sweep_sweep_inv: "wf_grid r c g \<Longrightarrow> sweep_inv r c g (sweep r c g)"
  unfolding sweep_def by (rule fold_sweep_column_inv) (simp_all add: sweep_inv_def)

text \<open>A pass that leaves the flag down has changed nothing and found nothing to move.\<close>

lemma fall_step_unmoved:
  "fall_step column row gm = (g', False) \<Longrightarrow>
   gm = (g', False) \<and> \<not> (g' ! row ! column \<noteq> '' '' \<and> g' ! (row + 1) ! column = '' '')"
  by (cases gm) (auto simp: fall_step_def split: if_splits)

lemma fold_fall_step_unmoved:
  "fold (fall_step column) xs gm = (g', False) \<Longrightarrow>
   gm = (g', False)
   \<and> (\<forall>row \<in> set xs. \<not> (g' ! row ! column \<noteq> '' '' \<and> g' ! (row + 1) ! column = '' ''))"
proof (induction xs arbitrary: gm)
  case Nil
  then show ?case by simp
next
  case (Cons x xs)
  from Cons.prems have "fold (fall_step column) xs (fall_step column x gm) = (g', False)" by simp
  from Cons.IH [OF this] have a: "fall_step column x gm = (g', False)"
    and b: "\<forall>row \<in> set xs. \<not> (g' ! row ! column \<noteq> '' '' \<and> g' ! (row + 1) ! column = '' '')"
    by simp_all
  from fall_step_unmoved [OF a] b show ?case by simp
qed

lemma fold_sweep_column_unmoved:
  "fold (sweep_column r) cs gm = (g', False) \<Longrightarrow>
   gm = (g', False)
   \<and> (\<forall>column \<in> set cs. \<forall>row \<in> set [0..<r - 1].
         \<not> (g' ! row ! column \<noteq> '' '' \<and> g' ! (row + 1) ! column = '' ''))"
proof (induction cs arbitrary: gm)
  case Nil
  then show ?case by simp
next
  case (Cons x cs)
  from Cons.prems have "fold (sweep_column r) cs (sweep_column r x gm) = (g', False)" by simp
  from Cons.IH [OF this] have a: "sweep_column r x gm = (g', False)"
    and b: "\<forall>column \<in> set cs. \<forall>row \<in> set [0..<r - 1].
              \<not> (g' ! row ! column \<noteq> '' '' \<and> g' ! (row + 1) ! column = '' '')"
    by simp_all
  from fold_fall_step_unmoved [OF a [unfolded sweep_column_def]] b show ?case by simp
qed

lemma sweep_unmoved: "sweep r c g = (g', False) \<Longrightarrow> g' = g \<and> settled_grid r c g"
  unfolding sweep_def settled_grid_def
  using fold_sweep_column_unmoved [of r "[0..<c]" "(g, False)" g'] by simp





lemma gravity_loop_total:
  "wf_grid r c g \<Longrightarrow>
   \<exists>g'. gravity_loop r c g = Some g' \<and> wf_grid r c g'
        \<and> occupied_count g' = occupied_count g \<and> settled_grid r c g'"
proof (induction g rule: measure_induct_rule [where f = "height_above_support c"])
  case (less g)
  obtain g1 m where sw: "sweep r c g = (g1, m)" by (cases "sweep r c g")
  from sweep_sweep_inv [OF less.prems] sw
  have wf1: "wf_grid r c g1" and oc1: "occupied_count g1 = occupied_count g"
    and dec: "m \<Longrightarrow> height_above_support c g1 < height_above_support c g"
    by (auto simp: sweep_inv_def split: if_splits)
  show ?case
  proof (cases m)
    case True
    from less.IH [OF dec [OF True] wf1] obtain g' where
      "gravity_loop r c g1 = Some g'" "wf_grid r c g'"
      "occupied_count g' = occupied_count g1" "settled_grid r c g'" by blast
    with sw True oc1 show ?thesis by (subst gravity_loop.simps) simp
  next
    case False
    with sw sweep_unmoved [of r c g g1] less.prems
    show ?thesis by (subst gravity_loop.simps) simp
  qed
qed

section \<open>Termination of the gravity loop\<close>

text \<open>
  Claim C9.  For every grid of the declared dimensions the loop of \<open>gravity_decorator\<close>
  returns.  Each single move of an occupant one cell down strictly decreases the height
  above support summed over the occupied cells, so does every pass that raises the flag
  \<open>moved\<close>, and the sum is a natural number.
\<close>

theorem gravity_loop_terminates:
  assumes "wf_grid r c g"
  shows "(\<exists>g'. gravity_loop r c g = Some g')
         \<and> (\<forall>row column. row + 1 < r \<and> column < c
                \<and> g ! row ! column \<noteq> '' '' \<and> g ! (row + 1) ! column = '' ''
              \<longrightarrow> height_above_support c (fst (fall_step column row (g, False)))
                    < height_above_support c g)
         \<and> (snd (sweep r c g)
              \<longrightarrow> height_above_support c (fst (sweep r c g)) < height_above_support c g)"
proof (intro conjI allI impI)
  from gravity_loop_total [OF assms] show "\<exists>g'. gravity_loop r c g = Some g'" by blast
next
  fix row column
  assume h: "row + 1 < r \<and> column < c
             \<and> g ! row ! column \<noteq> '' '' \<and> g ! (row + 1) ! column = '' ''"
  then have "height_above_support c
               (set_cell (set_cell g (row + 1) column (g ! row ! column)) row column '' '')
             < height_above_support c g"
    using fall_step_move(3) [OF assms, of row column] by simp
  with h show "height_above_support c (fst (fall_step column row (g, False)))
               < height_above_support c g"
    by (simp add: fall_step_def)
next
  assume "snd (sweep r c g)"
  with sweep_sweep_inv [OF assms]
  show "height_above_support c (fst (sweep r c g)) < height_above_support c g"
    by (simp add: sweep_inv_def)
qed

theorem gravity_loop_terminates_witness:
  "wf_grid 3 2 floating_grid
   \<and> (\<exists>g'. gravity_loop 3 2 floating_grid = Some g')
   \<and> height_above_support 2 (fst (fall_step 0 0 (floating_grid, False)))
       < height_above_support 2 floating_grid
   \<and> snd (sweep 3 2 floating_grid)
   \<and> height_above_support 2 (fst (sweep 3 2 floating_grid))
       < height_above_support 2 floating_grid"
proof -
  have wf: "wf_grid 3 2 floating_grid" by (simp add: wf_grid_def floating_grid_def)
  have mv: "(0::nat) + 1 < 3 \<and> (0::nat) < 2 \<and> floating_grid ! 0 ! 0 \<noteq> '' ''
            \<and> floating_grid ! (0 + 1) ! 0 = '' ''"
    by (simp add: floating_grid_def)
  have sw: "snd (sweep 3 2 floating_grid)" by code_simp
  from gravity_loop_terminates [OF wf] wf mv sw show ?thesis by blast
qed

section \<open>Facts about placement\<close>

lemma find_rev_upt_Some:
  "find P (rev [0..<n]) = Some r \<longleftrightarrow> r < n \<and> P r \<and> (\<forall>r'. r < r' \<and> r' < n \<longrightarrow> \<not> P r')"
proof (induction n)
  case 0
  then show ?case by simp
next
  case (Suc n)
  show ?case
  proof (cases "P n")
    case True
    then show ?thesis by (auto simp: less_Suc_eq)
  next
    case False
    then show ?thesis using Suc by (auto simp: less_Suc_eq)
  qed
qed

lemma find_rev_upt_None: "find P (rev [0..<n]) = None \<longleftrightarrow> (\<forall>r<n. \<not> P r)"
  by (auto simp: find_None_iff)

lemma find_upt_Some:
  "find P [0..<n] = Some r \<longleftrightarrow> r < n \<and> P r \<and> (\<forall>r'<r. \<not> P r')"
  by (auto simp: find_Some_iff)

lemma Piece_insert_eq:
  "Piece_insert s b column =
     (if 0 < column \<and> column \<le> int (columns b)
      then (case spec_lowest_empty_row (rows b) (grid b) (nat (column - 1)) of
              Some r \<Rightarrow> (b\<lparr>grid := set_cell (grid b) r (nat (column - 1)) s\<rparr>, True)
            | None \<Rightarrow> (b, False))
      else (b, False))"
  by (auto simp: Piece_insert_def spec_lowest_empty_row_def Let_def)

lemma lowest_empty_rowD:
  assumes "spec_lowest_empty_row rs g c = Some r"
  shows "r < rs" "g ! r ! c = '' ''" "\<And>r'. r < r' \<Longrightarrow> r' < rs \<Longrightarrow> g ! r' ! c \<noteq> '' ''"
  using assms by (auto simp: spec_lowest_empty_row_def find_rev_upt_Some)

lemma settled_gridD:
  "settled_grid rs cs g \<Longrightarrow> row + 1 < rs \<Longrightarrow> column < cs \<Longrightarrow> g ! (row + 1) ! column = '' '' \<Longrightarrow>
   g ! row ! column = '' ''"
  by (fastforce simp: settled_grid_def)

lemma settled_gridI:
  "(\<And>row column. row + 1 < rs \<Longrightarrow> column < cs \<Longrightarrow> g ! (row + 1) ! column = '' '' \<Longrightarrow>
     g ! row ! column = '' '') \<Longrightarrow> settled_grid rs cs g"
  by (auto simp: settled_grid_def)

lemma settled_set_cell_lowest:
  assumes wf: "wf_grid rs cs g" and st: "settled_grid rs cs g" and c: "c < cs"
    and low: "spec_lowest_empty_row rs g c = Some r"
  shows "settled_grid rs cs (set_cell g r c v)"
proof (rule settled_gridI)
  fix row column
  assume row: "row + 1 < rs" and col: "column < cs"
    and emp: "set_cell g r c v ! (row + 1) ! column = '' ''"
  note low' = lowest_empty_rowD [OF low]
  have len: "length g = rs" "length (g ! r) = cs" using wf low'(1) by (simp_all add: wf_grid_def)
  have nth: "\<And>i j. set_cell g r c v ! i ! j = (if i = r \<and> j = c then v else g ! i ! j)"
    using nth_set_cell [of r g c] low'(1) c len by simp
  show "set_cell g r c v ! row ! column = '' ''"
  proof (cases "column = c")
    case False
    with emp nth settled_gridD [OF st row col] show ?thesis by simp
  next
    case True
    show ?thesis
    proof (cases "row + 1 \<le> r")
      case True
      have "g ! row ! c = '' ''"
        using True low'(1,2) st c
      proof (induction "r - row" arbitrary: row)
        case 0
        then show ?case by simp
      next
        case (Suc k)
        show ?case
        proof (cases "row + 1 = r")
          case True
          with Suc.prems settled_gridD [OF st, of row c] show ?thesis by simp
        next
          case False
          with Suc have "g ! (row + 1) ! c = '' ''" by simp
          with Suc.prems settled_gridD [OF st, of row c] show ?thesis by simp
        qed
      qed
      with True \<open>column = c\<close> nth show ?thesis by simp
    next
      case False
      then have "r < row + 1" by simp
      with low'(3) [of "row + 1"] row emp nth \<open>column = c\<close> show ?thesis by (auto split: if_splits)
    qed
  qed
qed

lemma wf_Board: "wf_board (Board r c)"
  by (simp add: wf_board_def wf_grid_def Board_def)

lemma settled_Board: "settled (Board r c)"
  by (simp add: settled_def settled_grid_def Board_def)

lemma same_dims_refl: "wf_board b \<Longrightarrow> same_dims b b"
  by (simp add: same_dims_def wf_board_def)

lemma same_dims_wf: "same_dims b b' \<Longrightarrow> wf_board b'"
  by (simp add: same_dims_def wf_board_def)

lemma same_dims_set_cell:
  "same_dims b b1 \<Longrightarrow> same_dims b (b1\<lparr>grid := set_cell (grid b1) i j v\<rparr>)"
  by (simp add: same_dims_def wf_grid_set_cell)

lemma same_dims_Piece_insert: "wf_board b \<Longrightarrow> same_dims b (fst (Piece_insert s b column))"
  by (auto simp: Piece_insert_eq same_dims_refl same_dims_set_cell split: option.splits)

lemma same_dims_clear_target: "same_dims b b1 \<Longrightarrow> same_dims b (clear_target ir ci d b1)"
  by (simp add: clear_target_def Let_def same_dims_set_cell)

lemma same_dims_fold_clear_target:
  "same_dims b b1 \<Longrightarrow> same_dims b (fold (clear_target ir ci) ds b1)"
  by (induction ds arbitrary: b1) (simp_all add: same_dims_clear_target)

lemma same_dims_BombPiece_insert_body:
  "wf_board b \<Longrightarrow> same_dims b (fst (BombPiece_insert_body b column))"
  using same_dims_Piece_insert [of b "''B''" column]
  by (auto simp: BombPiece_insert_body_def Let_def same_dims_fold_clear_target
      split: prod.splits)

lemma same_dims_TeleportPiece_insert_body:
  "wf_board b \<Longrightarrow> same_dims b (fst (TeleportPiece_insert_body b column))"
  using same_dims_Piece_insert [of b "''T''" column]
  by (auto simp: TeleportPiece_insert_body_def Let_def same_dims_def
      split: prod.splits option.splits intro!: wf_grid_set_cell)

lemma gravity_decorator_total:
  assumes "same_dims b (fst (body b column))"
  shows "\<exists>g'. gravity_decorator body b column
                 = Some ((fst (body b column))\<lparr>grid := g'\<rparr>, snd (body b column))
              \<and> gravity_loop (rows b) (columns b) (grid (fst (body b column))) = Some g'
              \<and> wf_grid (rows b) (columns b) g' \<and> settled_grid (rows b) (columns b) g'
              \<and> occupied_count g' = occupied_count (grid (fst (body b column)))"
proof -
  obtain b1 ok where body: "body b column = (b1, ok)" by (cases "body b column")
  with assms have d: "rows b1 = rows b" "columns b1 = columns b"
    and wf: "wf_grid (rows b) (columns b) (grid b1)"
    by (simp_all add: same_dims_def)
  from gravity_loop_total [OF wf] obtain g' where
    "gravity_loop (rows b) (columns b) (grid b1) = Some g'" "wf_grid (rows b) (columns b) g'"
    "occupied_count g' = occupied_count (grid b1)" "settled_grid (rows b) (columns b) g'"
    by blast
  with body d show ?thesis by (simp add: gravity_decorator_def)
qed

lemma insert_piece_total:
  assumes wf: "wf_board b" and st: "\<forall>s. p = Piece s \<longrightarrow> settled b"
  shows "\<exists>b' ok. insert_piece p b column = Some (b', ok) \<and> same_dims b b' \<and> settled b'"
proof (cases p)
  case (Piece s)
  obtain b' ok where ins: "Piece_insert s b column = (b', ok)" by (cases "Piece_insert s b column")
  from same_dims_Piece_insert [OF wf, of s column] ins have sd: "same_dims b b'" by simp
  from st Piece have "settled b" by simp
  with wf ins have "settled b'"
    by (auto simp: Piece_insert_eq settled_def wf_board_def settled_set_cell_lowest
        split: if_splits option.splits)
  with Piece ins sd show ?thesis by simp
next
  case BombPiece
  from gravity_decorator_total [of b BombPiece_insert_body column,
      OF same_dims_BombPiece_insert_body [OF wf]]
    same_dims_BombPiece_insert_body [OF wf, of column]
  show ?thesis unfolding BombPiece
    by (auto simp: same_dims_def wf_board_def settled_def)
next
  case TeleportPiece
  from gravity_decorator_total [of b TeleportPiece_insert_body column,
      OF same_dims_TeleportPiece_insert_body [OF wf]]
    same_dims_TeleportPiece_insert_body [OF wf, of column]
  show ?thesis unfolding TeleportPiece
    by (auto simp: same_dims_def wf_board_def settled_def)
qed

lemma reachable_wf_settled: "reachable b \<Longrightarrow> wf_board b \<and> settled b"
proof (induction rule: reachable.induct)
  case (start r c)
  show ?case by (simp add: wf_Board settled_Board)
next
  case (place b s column b' ok)
  then have "wf_board b" "\<forall>x. new_piece s = Piece x \<longrightarrow> settled b" by simp_all
  from insert_piece_total [OF this, of column] place.hyps(2)
  show ?case by (auto dest: same_dims_wf)
qed

section \<open>The invariant of the grid\<close>

text \<open>
  Claim C7.  On every board a game can show (the empty board and whatever a sequence of
  insertions of any pieces into any columns leaves), the insertion of a piece of any of
  the three variants returns, accepted or not, and on the board it leaves no occupied
  cell of any column has an empty cell directly beneath it.
\<close>

theorem placement_leaves_no_floating_piece:
  assumes "reachable b"
  shows "\<exists>b' ok. insert_piece p b column = Some (b', ok) \<and> settled b'"
proof -
  from reachable_wf_settled [OF assms] have "wf_board b" "\<forall>s. p = Piece s \<longrightarrow> settled b"
    by simp_all
  from insert_piece_total [OF this, of column] show ?thesis by blast
qed

theorem placement_leaves_no_floating_piece_witness:
  "reachable small_board
   \<and> (\<exists>b' ok. insert_piece TeleportPiece small_board 2 = Some (b', ok) \<and> settled b')"
proof -
  have "insert_piece (new_piece ''X'') (Board 2 2) 1 = Some (small_board, True)"
    by code_simp
  from reachable.place [OF reachable.start this] have r: "reachable small_board" .
  from placement_leaves_no_floating_piece [OF r, of TeleportPiece 2] r show ?thesis by simp
qed

section \<open>Pieces and their classes\<close>

lemma add_piece_pieces: "pieces (add_piece p s n) = pieces p @ replicate n (new_piece s)"
proof -
  have "\<And>q. pieces (fold (\<lambda>x q. q\<lparr>pieces := pieces q @ [new_piece s]\<rparr>) xs q)
            = pieces q @ replicate (length xs) (new_piece s)" for xs :: "nat list"
    by (induction xs) (simp_all add: replicate_append_same)
  from this [of "[0..<n]" p] show ?thesis by (simp add: add_piece_def)
qed

text \<open>
  Claim C10.  \<open>add_piece\<close> with the symbol \<open>B\<close> appends bomb pieces and with the symbol
  \<open>T\<close> teleport pieces, as many as asked for, whoever calls it.  So a player who enters
  \<open>B\<close> or \<open>T\<close> as the symbol at the start holds bomb or teleport pieces where the pieces
  of the symbol would be, and no plain piece at all.
\<close>

theorem add_piece_by_symbol:
  "pieces (add_piece p ''B'' n) = pieces p @ replicate n BombPiece
   \<and> pieces (add_piece p ''T'' n) = pieces p @ replicate n TeleportPiece
   \<and> pieces (players (Game_setup r c name1 ''B'' name2 symbol2) ! 0)
       = replicate (if (r * c) mod 2 \<noteq> 0 then (r * c) div 2 + 1 else (r * c) div 2) BombPiece
         @ replicate ((r * c) div 10) TeleportPiece @ replicate ((r * c) div 20) BombPiece
   \<and> pieces (players (Game_setup r c name1 ''T'' name2 symbol2) ! 0)
       = replicate (if (r * c) mod 2 \<noteq> 0 then (r * c) div 2 + 1 else (r * c) div 2) TeleportPiece
         @ replicate ((r * c) div 10) TeleportPiece @ replicate ((r * c) div 20) BombPiece
   \<and> pieces (players (Game_setup r c name1 symbol1 name2 ''B'') ! 1)
       = replicate ((r * c) div 2) BombPiece
         @ replicate ((r * c) div 10) TeleportPiece @ replicate ((r * c) div 20) BombPiece
   \<and> pieces (players (Game_setup r c name1 symbol1 name2 ''T'') ! 1)
       = replicate ((r * c) div 2) TeleportPiece
         @ replicate ((r * c) div 10) TeleportPiece @ replicate ((r * c) div 20) BombPiece"
  by (simp add: add_piece_pieces new_piece_def Game_setup_def Player_def Let_def)

section \<open>The outcome of a turn\<close>

text \<open>The position \<open>bomb_game\<close> is reached by seven turns of the game.\<close>

lemma bomb_game_reached:
  "begin_loop new_game
     [Some (''O'', 1), Some (''X'', 4), Some (''O'', 2), Some (''X'', 4),
      Some (''O'', 3), Some (''X'', 7), Some (''O'', 4)] = Some (bomb_game, None)"
  by code_simp

text \<open>
  Claim C8.  In a pass of the loop in which the insertion succeeds, if the check anchored
  at the inserted piece finds four in a row for the mover and the sweep of the board finds
  four in a row for the other player, the pass ends the game with a draw.
\<close>

theorem simultaneous_wins_draw:
  assumes "pieces (players gm ! current_player gm) \<noteq> []"
    and "choose_piece (players gm ! current_player gm) user_input = Some (piece, column, p')"
    and "insert_piece piece (board gm) column = Some (b', True)"
    and "current_player_wins b' (symbol piece)
           (inserted_row_of b' (column - 1) (symbol piece)) (column - 1)"
    and "otherplayer_wins b' (player_symbol (players gm ! otherplayer gm))"
  shows "begin_turn gm user_input
           = Some (gm\<lparr>players := (players gm)[current_player gm := p'], board := b'\<rparr>,
                   Finished Draw)"
  using assms by (simp add: begin_turn_def win_resolution_def Let_def otherplayer_def)

theorem simultaneous_wins_draw_witness:
  "\<exists>p' b'. pieces (players draw_game ! current_player draw_game) \<noteq> []
     \<and> choose_piece (players draw_game ! current_player draw_game) (Some (''X'', 4))
          = Some (Piece ''X'', 4, p')
     \<and> insert_piece (Piece ''X'') (board draw_game) 4 = Some (b', True)
     \<and> current_player_wins b' ''X'' (inserted_row_of b' 3 ''X'') 3
     \<and> otherplayer_wins b' ''O''
     \<and> begin_turn draw_game (Some (''X'', 4))
          = Some (draw_game\<lparr>players := (players draw_game)[1 := p'], board := b'\<rparr>,
                  Finished Draw)"
proof -
  let ?p' = "\<lparr>name = ''Bob'', player_symbol = ''X'',
              pieces = replicate 17 (Piece ''X'') @ replicate 4 TeleportPiece
                       @ replicate 2 BombPiece\<rparr>"
  let ?b' = "\<lparr>rows = 6, columns = 7,
        grid = [['' '', '' '', '' '', '' '', '' '', '' '', '' ''],
                ['' '', '' '', '' '', '' '', '' '', '' '', '' ''],
                ['' '', '' '', '' '', '' '', '' '', '' '', ''O''],
                ['' '', '' '', '' '', '' '', '' '', '' '', ''O''],
                ['' '', '' '', '' '', '' '', '' '', '' '', ''O''],
                [''X'', ''X'', ''X'', ''X'', '' '', '' '', ''O'']]\<rparr>"
  have a: "pieces (players draw_game ! current_player draw_game) \<noteq> []" by code_simp
  have b: "choose_piece (players draw_game ! current_player draw_game) (Some (''X'', 4))
          = Some (Piece ''X'', 4, ?p')" by code_simp
  have c: "insert_piece (Piece ''X'') (board draw_game) 4 = Some (?b', True)" by code_simp
  have d: "current_player_wins ?b' (symbol (Piece ''X''))
             (inserted_row_of ?b' (4 - 1) (symbol (Piece ''X''))) (4 - 1)" by code_simp
  have e: "otherplayer_wins ?b' (player_symbol (players draw_game ! otherplayer draw_game))"
    by code_simp
  have f: "current_player draw_game = 1" by code_simp
  from simultaneous_wins_draw [OF a b c d e] a b c d e f show ?thesis
    by (intro exI [of _ ?p'] exI [of _ ?b']) (simp add: otherplayer_def draw_game_def)
qed

text \<open>
  Claim C1.  The claim gives the win to the other player when only the sweep of the board
  finds four in a row; the third branch of the outcome chain prints the name of
  \<open>current_player\<close>, the mover.  In \<open>bomb_game\<close> Bob (player 1) plays a bomb into
  column 5: the two \<open>X\<close> of column 4 are cleared, the \<open>O\<close> above them falls and
  completes four \<open>O\<close> on the floor.  Only the sweep for Ann (player 0) finds a run, and
  the pass ends with the message that player 1 wins.
\<close>

theorem opponent_run_credited_to_mover:
  "begin_turn bomb_game (Some (''B'', 5)) = Some (bombed_game, Finished (Win 1))
   \<and> current_player bomb_game = 1 \<and> otherplayer bomb_game = 0
   \<and> otherplayer_wins (board bombed_game) (player_symbol (players bomb_game ! 0))
   \<and> \<not> current_player_wins (board bombed_game) ''B''
          (inserted_row_of (board bombed_game) 4 ''B'') 4"
  by code_simp

section \<open>Moves that are refused\<close>









lemma prompted_Some:
  "prompted gm = Some i \<Longrightarrow>
   i = current_player gm
   \<and> begin_turn gm user_input
       = (case choose_piece (players gm ! i) user_input of
            None \<Rightarrow> Some (gm, Reprompt)
          | Some (piece, column, p') \<Rightarrow>
              (let gm1 = gm\<lparr>players := (players gm)[i := p']\<rparr> in
               case insert_piece piece (board gm1) column of
                 None \<Rightarrow> None
               | Some (b', insert_success) \<Rightarrow>
                   if \<not> insert_success then Some (gm1\<lparr>board := b'\<rparr>, Reprompt)
                   else Some (win_resolution (gm1\<lparr>board := b'\<rparr>) piece column)))"
  by (auto simp: prompted_def begin_turn_def split: if_splits)

text \<open>The position \<open>last_piece_game\<close> is reached by two turns of a game.\<close>

lemma last_piece_game_reached:
  "begin_loop (Game_setup 2 2 ''Ann'' ''O'' ''Bob'' ''X'') [Some (''O'', 1), Some (''X'', 2)]
     = Some (last_piece_game, None)"
  by code_simp




section \<open>The bomb\<close>

lemma grid_eqI:
  assumes "wf_grid r c g" "wf_grid r c g'" "\<And>i j. i < r \<Longrightarrow> j < c \<Longrightarrow> g ! i ! j = g' ! i ! j"
  shows "g = g'"
proof (rule nth_equalityI)
  show "length g = length g'" using assms by (simp add: wf_grid_def)
next
  fix i assume i: "i < length g"
  then have ir: "i < r" using assms(1) by (simp add: wf_grid_def)
  have l: "length (g ! i) = c" "length (g' ! i) = c"
    using assms(1,2) ir by (simp_all add: wf_grid_def)
  show "g ! i = g' ! i"
    by (rule nth_equalityI) (use l assms(3) ir in simp_all)
qed

lemma board_eqI:
  fixes b b' :: board
  shows "rows b' = rows b \<Longrightarrow> columns b' = columns b \<Longrightarrow> grid b' = g \<Longrightarrow> b' = b\<lparr>grid := g\<rparr>"
  by (cases b, cases b') simp

lemma same_dims_cell_set_cell:
  assumes "same_dims b b1" "i < rows b" "j < columns b"
  shows "set_cell (grid b1) i j v ! i' ! j' = (if i' = i \<and> j' = j then v else grid b1 ! i' ! j')"
  using assms nth_set_cell [of i "grid b1" j v i' j'] by (simp add: same_dims_def wf_grid_def)

lemma clear_target_cell:
  assumes "same_dims b b1"
  shows "grid (clear_target ir ci d b1) ! i ! j
         = (if int i = ir + fst d \<and> int j = ci + snd d \<and> i < rows b \<and> j < columns b
            then '' '' else grid b1 ! i ! j)"
proof -
  have d: "rows b1 = rows b" "columns b1 = columns b" using assms by (simp_all add: same_dims_def)
  show ?thesis
  proof (cases "0 \<le> ir + fst d \<and> ir + fst d < int (rows b)
                \<and> 0 \<le> ci + snd d \<and> ci + snd d < int (columns b)")
    case True
    then have "nat (ir + fst d) < rows b" "nat (ci + snd d) < columns b" by auto
    from same_dims_cell_set_cell [OF assms this] True d show ?thesis
      by (auto simp: clear_target_def Let_def)
  next
    case False
    with d show ?thesis by (auto simp: clear_target_def Let_def)
  qed
qed

lemma fold_clear_target_cell:
  assumes "same_dims b b1"
  shows "grid (fold (clear_target ir ci) ds b1) ! i ! j
         = (if (\<exists>d \<in> set ds. int i = ir + fst d \<and> int j = ci + snd d)
               \<and> i < rows b \<and> j < columns b
            then '' '' else grid b1 ! i ! j)"
  using assms
proof (induction ds arbitrary: b1)
  case Nil
  then show ?case by simp
next
  case (Cons d ds)
  from Cons.IH [OF same_dims_clear_target [OF Cons.prems]] clear_target_cell [OF Cons.prems]
  show ?case by auto
qed

lemma near_iff: "\<bar>x - y\<bar> \<le> (1::int) \<longleftrightarrow> x = y + (- 1) \<or> x = y + 0 \<or> x = y + 1"
  by arith

lemma set_offsets:
  "set offsets = {(- 1, - 1), (- 1, 0), (- 1, 1), (0, - 1), (0, 0), (0, 1), (1, - 1), (1, 0), (1, 1)}"
  by (simp add: offsets_def)

lemma offsets_iff:
  "(\<exists>d \<in> set offsets. i = ir + fst d \<and> j = ci + snd d) \<longleftrightarrow> \<bar>i - ir\<bar> \<le> 1 \<and> \<bar>j - ci\<bar> \<le> (1::int)"
  unfolding set_offsets near_iff by simp blast

lemma wf_spec_area_clear: "wf_grid rs cs g \<Longrightarrow> wf_grid rs cs (spec_area_clear r c g)"
  by (auto simp: wf_grid_def spec_area_clear_def)

lemma spec_area_clear_cell:
  "wf_grid rs cs g \<Longrightarrow> i < rs \<Longrightarrow> j < cs \<Longrightarrow>
   spec_area_clear r c g ! i ! j
     = (if \<bar>int i - int r\<bar> \<le> 1 \<and> \<bar>int j - int c\<bar> \<le> 1 then '' '' else g ! i ! j)"
  by (simp add: wf_grid_def spec_area_clear_def)

lemma fold_clear_target_offsets:
  assumes sd: "same_dims b b1"
  shows "fold (clear_target (int r) (int c)) offsets b1
         = b\<lparr>grid := spec_area_clear r c (grid b1)\<rparr>"
proof (rule board_eqI)
  let ?b2 = "fold (clear_target (int r) (int c)) offsets b1"
  have sd2: "same_dims b ?b2" using sd by (rule same_dims_fold_clear_target)
  then show "rows ?b2 = rows b" "columns ?b2 = columns b" by (simp_all add: same_dims_def)
  have wf1: "wf_grid (rows b) (columns b) (grid b1)" using sd by (simp add: same_dims_def)
  show "grid ?b2 = spec_area_clear r c (grid b1)"
  proof (rule grid_eqI [of "rows b" "columns b"])
    show "wf_grid (rows b) (columns b) (grid ?b2)" using sd2 by (simp add: same_dims_def)
    show "wf_grid (rows b) (columns b) (spec_area_clear r c (grid b1))"
      using wf1 by (rule wf_spec_area_clear)
    fix i j assume "i < rows b" "j < columns b"
    then show "grid ?b2 ! i ! j = spec_area_clear r c (grid b1) ! i ! j"
      using fold_clear_target_cell [OF sd, of "int r" "int c" offsets i j]
        spec_area_clear_cell [OF wf1, of i j r c]
        offsets_iff [of "int i" "int r" "int j" "int c"]
      by simp
  qed
qed

text \<open>The search for the symbol finds the landing row when no lower cell holds the symbol.\<close>

lemma find_symbol_row_landing:
  assumes wf: "wf_board b" and c: "c < columns b"
    and land: "spec_lowest_empty_row (rows b) (grid b) c = Some r"
    and below: "\<forall>r' \<in> set [Suc r..<rows b]. grid b ! r' ! c \<noteq> s"
  shows "find_symbol_row (b\<lparr>grid := set_cell (grid b) r c s\<rparr>) (int c) s = int r"
proof -
  note l = lowest_empty_rowD [OF land]
  have len: "r < length (grid b)" "c < length (grid b ! r)"
    using wf l(1) c by (simp_all add: wf_board_def wf_grid_def)
  have nth: "\<And>i j. set_cell (grid b) r c s ! i ! j = (if i = r \<and> j = c then s else grid b ! i ! j)"
    using nth_set_cell [OF len] by simp
  have "find (\<lambda>row. set_cell (grid b) r c s ! row ! c = s) (rev [0..<rows b]) = Some r"
    unfolding find_rev_upt_Some using l(1) below nth by auto
  then show ?thesis by (simp add: find_symbol_row_def)
qed

lemma BombPiece_insert_landing:
  assumes wf: "wf_board b" and col: "0 < column" "column \<le> int (columns b)"
    and land: "spec_lowest_empty_row (rows b) (grid b) (nat (column - 1)) = Some r"
    and below: "\<forall>r' \<in> set [Suc r..<rows b]. grid b ! r' ! nat (column - 1) \<noteq> ''B''"
  shows "BombPiece_insert_body b column
           = (b\<lparr>grid := spec_area_clear r (nat (column - 1))
                           (set_cell (grid b) r (nat (column - 1)) ''B'')\<rparr>, True)"
proof -
  let ?c = "nat (column - 1)"
  let ?b1 = "b\<lparr>grid := set_cell (grid b) r ?c ''B''\<rparr>"
  have c: "?c < columns b" "int ?c = column - 1" using col by auto
  have pi: "Piece_insert ''B'' b column = (?b1, True)"
    using col land by (simp add: Piece_insert_eq)
  have sd: "same_dims b ?b1" using same_dims_Piece_insert [OF wf, of "''B''" column] pi by simp
  have fr: "find_symbol_row ?b1 (column - 1) ''B'' = int r"
    using find_symbol_row_landing [OF wf c(1) land below] c(2) by simp
  show ?thesis
    using fold_clear_target_offsets [OF sd, of r ?c] c(2)
    by (simp add: BombPiece_insert_body_def pi fr Let_def)
qed

section \<open>The teleport piece\<close>

lemma set_cell_same:
  "i < length g \<Longrightarrow> j < length (g ! i) \<Longrightarrow> g ! i ! j = v \<Longrightarrow> set_cell g i j v = g"
  by (auto simp: set_cell_def list_update_same_conv)

lemma set_cell_twice: "i < length g \<Longrightarrow> set_cell (set_cell g i j v) i j w = set_cell g i j w"
  by (simp add: set_cell_def)

lemma TeleportPiece_insert_landing:
  assumes wf: "wf_board b" and col: "0 < column" "column \<le> int (columns b)"
    and land: "spec_lowest_empty_row (rows b) (grid b) (nat (column - 1)) = Some r"
    and below: "\<forall>r' \<in> set [Suc r..<rows b]. grid b ! r' ! nat (column - 1) \<noteq> ''T''"
  shows "TeleportPiece_insert_body b column
           = (b\<lparr>grid := spec_swap (rows b) (columns b) (grid b) r (nat (column - 1))\<rparr>, True)
         \<and> spec_lowest_empty_row (rows b)
              (set_cell (grid b) (rows b - 1 - r) (columns b - 1 - nat (column - 1)) '' '')
              (nat (column - 1)) \<noteq> None"
proof -
  let ?c = "nat (column - 1)"
  let ?g = "grid b"
  let ?b1 = "b\<lparr>grid := set_cell ?g r ?c ''T''\<rparr>"
  have c: "?c < columns b" "int ?c = column - 1" using col by auto
  note l = lowest_empty_rowD [OF land]
  have len: "r < length ?g" "?c < length (?g ! r)"
    using wf l(1) c by (simp_all add: wf_board_def wf_grid_def)
  have pi: "Piece_insert ''T'' b column = (?b1, True)"
    using col land by (simp add: Piece_insert_eq)
  have fr: "find_symbol_row ?b1 (column - 1) ''T'' = int r"
    using find_symbol_row_landing [OF wf c(1) land below] c(2) by simp
  have restored: "set_cell (set_cell ?g r ?c ''T'') r ?c '' '' = ?g"
    using set_cell_same [OF len l(2)] len(1) by (simp add: set_cell_twice)
  let ?mr = "int (rows b) - 1 - int r"
  let ?mc = "int (columns b) - 1 - (column - 1)"
  have mr: "0 \<le> ?mr" "?mr < int (rows b)" "nat ?mr = rows b - 1 - r" using l(1) by auto
  have mc: "0 \<le> ?mc" "?mc < int (columns b)" "nat ?mc = columns b - 1 - ?c" using col by auto
  have ne: "?g ! nat ?mr ! nat ?mc \<noteq> '' '' \<Longrightarrow> (nat ?mr, nat ?mc) \<noteq> (r, ?c)"
    using l(2) by auto
  let ?g2 = "set_cell ?g (nat ?mr) (nat ?mc) '' ''"
  have mlen: "nat ?mr < length ?g" "nat ?mc < length (?g ! nat ?mr)"
    using wf mr mc by (simp_all add: wf_board_def wf_grid_def)
  have "?g2 ! r ! ?c = '' ''" using nth_set_cell [OF mlen, of "'' ''" r ?c] l(2) by simp
  then have ex: "spec_lowest_empty_row (rows b) ?g2 ?c \<noteq> None"
    using l(1) by (auto simp: spec_lowest_empty_row_def find_None_iff)
  have body: "TeleportPiece_insert_body b column
           = (b\<lparr>grid := spec_swap (rows b) (columns b) ?g r ?c\<rparr>, True)"
  proof (cases "?g ! nat ?mr ! nat ?mc \<noteq> '' ''")
    case True
    from ex obtain r2 where r2: "spec_lowest_empty_row (rows b) ?g2 ?c = Some r2" by auto
    then have f: "find (\<lambda>row. ?g2 ! row ! ?c = '' '') (rev [0..<rows b]) = Some r2"
      by (simp add: spec_lowest_empty_row_def)
    show ?thesis
      using True ne mr mc c(2) r2 f col
      by (simp add: TeleportPiece_insert_body_def pi fr restored Let_def spec_swap_def)
  next
    case False
    then show ?thesis
      using mr mc c(2) col
      by (simp add: TeleportPiece_insert_body_def pi fr restored Let_def spec_swap_def)
  qed
  from body ex mr(3) mc(3) show ?thesis by auto
qed

section \<open>Occupied cells and pieces in hand\<close>

lemma occupied_count_set_cell:
  assumes "i < length g" "j < length (g ! i)"
  shows "occupied_count (set_cell g i j v) + of_bool (g ! i ! j \<noteq> '' '')
          = occupied_count g + of_bool (v \<noteq> '' '')"
  using weighted_set_cell [OF assms, of "\<lambda>_. 1" v] by (simp add: occupied_count_weighted)

lemma find_rev_upt_exists:
  "r < n \<Longrightarrow> P r \<Longrightarrow> \<exists>k. find P (rev [0..<n]) = Some k \<and> k < n \<and> P k"
  by (cases "find P (rev [0..<n])") (auto simp: find_rev_upt_None find_rev_upt_Some)

lemma teleport_body_count:
  assumes wf: "wf_board b" and ok: "snd (TeleportPiece_insert_body b column)"
  shows "occupied_count (grid (fst (TeleportPiece_insert_body b column)))
           = occupied_count (grid b)"
proof -
  let ?c = "nat (column - 1)"
  let ?g = "grid b"
  have ins: "snd (Piece_insert ''T'' b column)"
    using ok by (auto simp: TeleportPiece_insert_body_def split: prod.splits if_splits)
  then have col: "0 < column" "column \<le> int (columns b)"
    by (auto simp: Piece_insert_eq split: if_splits)
  with ins obtain r where land: "spec_lowest_empty_row (rows b) ?g ?c = Some r"
    by (auto simp: Piece_insert_eq split: option.splits)
  let ?g1 = "set_cell ?g r ?c ''T''"
  let ?b1 = "b\<lparr>grid := ?g1\<rparr>"
  have pi: "Piece_insert ''T'' b column = (?b1, True)"
    using col land by (simp add: Piece_insert_eq)
  have c: "?c < columns b" "int ?c = column - 1" using col by auto
  note l = lowest_empty_rowD [OF land]
  have wfg: "wf_grid (rows b) (columns b) ?g" using wf by (simp add: wf_board_def)
  have lens: "\<And>g i. wf_grid (rows b) (columns b) g \<Longrightarrow> i < rows b \<Longrightarrow>
              i < length g \<and> ?c < length (g ! i)"
    using c(1) by (simp add: wf_grid_def)
  have wf1: "wf_grid (rows b) (columns b) ?g1" using wfg by (rule wf_grid_set_cell)
  have n1: "occupied_count ?g1 = occupied_count ?g + 1"
    using occupied_count_set_cell [of r ?g ?c "''T''"] lens [OF wfg l(1)] l(2) by simp
  have "?g1 ! r ! ?c = ''T''" using nth_set_cell [of r ?g ?c] lens [OF wfg l(1)] by simp
  from find_rev_upt_exists [of r "rows b" "\<lambda>row. ?g1 ! row ! ?c = ''T''", OF l(1) this]
  obtain k where k: "find (\<lambda>row. ?g1 ! row ! ?c = ''T'') (rev [0..<rows b]) = Some k"
    "k < rows b" "?g1 ! k ! ?c = ''T''" by blast
  have fr: "find_symbol_row ?b1 (column - 1) ''T'' = int k"
    using k(1) by (simp add: find_symbol_row_def)
  let ?g2 = "set_cell ?g1 k ?c '' ''"
  have wf2: "wf_grid (rows b) (columns b) ?g2" using wf1 by (rule wf_grid_set_cell)
  have n2: "occupied_count ?g2 = occupied_count ?g"
    using occupied_count_set_cell [of k ?g1 ?c "'' ''"] lens [OF wf1 k(2)] k(3) n1 by simp
  have e2: "?g2 ! k ! ?c = '' ''" using nth_set_cell [of k ?g1 ?c] lens [OF wf1 k(2)] by simp
  let ?mr = "nat (int (rows b) - 1 - int k)"
  let ?mc = "nat (int (columns b) - 1 - (column - 1))"
  have m: "?mr < rows b" "?mc < columns b" using k(2) col by auto
  have mlen: "?mr < length ?g2" "?mc < length (?g2 ! ?mr)"
    using wf2 m by (simp_all add: wf_grid_def)
  show ?thesis
  proof (cases "?g2 ! ?mr ! ?mc \<noteq> '' ''")
    case False
    then show ?thesis
      using n2 col k(2) by (simp add: TeleportPiece_insert_body_def pi fr Let_def)
  next
    case True
    let ?g3 = "set_cell ?g2 ?mr ?mc '' ''"
    have wf3: "wf_grid (rows b) (columns b) ?g3" using wf2 by (rule wf_grid_set_cell)
    have n3: "occupied_count ?g3 + 1 = occupied_count ?g"
      using occupied_count_set_cell [OF mlen, of "'' ''"] True n2 by simp
    have "?g3 ! k ! ?c = '' ''" using nth_set_cell [OF mlen, of "'' ''" k ?c] e2 by simp
    from find_rev_upt_exists [of k "rows b" "\<lambda>row. ?g3 ! row ! ?c = '' ''", OF k(2) this]
    obtain r2 where r2: "find (\<lambda>row. ?g3 ! row ! ?c = '' '') (rev [0..<rows b]) = Some r2"
      "r2 < rows b" "?g3 ! r2 ! ?c = '' ''" by blast
    have n4: "occupied_count (set_cell ?g3 r2 ?c (?g2 ! ?mr ! ?mc)) = occupied_count ?g"
      using occupied_count_set_cell [of r2 ?g3 ?c "?g2 ! ?mr ! ?mc"] lens [OF wf3 r2(2)]
        r2(3) True n3 by simp
    show ?thesis
      using True r2(1) n4 col k(2)
      by (simp add: TeleportPiece_insert_body_def pi fr Let_def)
  qed
qed

lemma choose_piece_length:
  "choose_piece p user_input = Some (q, column, p') \<Longrightarrow>
   length (pieces p') + 1 = length (pieces p) \<and> pieces p \<noteq> []"
  by (auto simp: choose_piece_def find_Some_iff split: option.splits)

lemma win_resolution_keeps:
  "board (fst (win_resolution gm q column)) = board gm
   \<and> players (fst (win_resolution gm q column)) = players gm
   \<and> snd (win_resolution gm q column) \<noteq> Reprompt
   \<and> snd (win_resolution gm q column) \<noteq> Skipped"
  by (simp add: win_resolution_def Let_def)

text \<open>
  Claim C6.  In a pass of the loop in which the current player plays a teleport piece
  into a column that is in range and not full, on a board of the declared dimensions, the
  pass returns, the move is accepted, the board after the move has as many occupied cells
  as the board before it, and the player holds one piece less.  This holds on every such
  board, so on every board without floating pieces.
\<close>

theorem swap_keeps_occupied_count:
  assumes wf: "wf_board (board gm)" and cur: "current_player gm < length (players gm)"
    and cp: "choose_piece (players gm ! current_player gm) user_input
               = Some (TeleportPiece, column, p')"
    and col: "0 < column" "column \<le> int (columns (board gm))"
    and room: "spec_lowest_empty_row (rows (board gm)) (grid (board gm)) (nat (column - 1)) \<noteq> None"
  shows "\<exists>gm' res. begin_turn gm user_input = Some (gm', res)
           \<and> res \<noteq> Reprompt \<and> res \<noteq> Skipped
           \<and> occupied_count (grid (board gm')) = occupied_count (grid (board gm))
           \<and> length (pieces (players gm' ! current_player gm)) + 1
               = length (pieces (players gm ! current_player gm))"
proof -
  let ?b = "board gm"
  from choose_piece_length [OF cp]
  have len: "length (pieces p') + 1 = length (pieces (players gm ! current_player gm))"
    and ne: "pieces (players gm ! current_player gm) \<noteq> []" by simp_all
  have ok: "snd (TeleportPiece_insert_body ?b column)"
    using col room
    by (auto simp: TeleportPiece_insert_body_def Piece_insert_eq Let_def split: option.splits)
  have sd: "same_dims ?b (fst (TeleportPiece_insert_body ?b column))"
    using wf by (rule same_dims_TeleportPiece_insert_body)
  from gravity_decorator_total [of ?b TeleportPiece_insert_body column, OF sd]
  obtain g' where ins: "insert_piece TeleportPiece ?b column
        = Some ((fst (TeleportPiece_insert_body ?b column))\<lparr>grid := g'\<rparr>, True)"
    and cnt: "occupied_count g' = occupied_count (grid (fst (TeleportPiece_insert_body ?b column)))"
    using ok by auto
  let ?b' = "(fst (TeleportPiece_insert_body ?b column))\<lparr>grid := g'\<rparr>"
  let ?gm2 = "gm\<lparr>players := (players gm)[current_player gm := p'], board := ?b'\<rparr>"
  have bt: "begin_turn gm user_input = Some (win_resolution ?gm2 TeleportPiece column)"
    using ne cp ins by (simp add: begin_turn_def)
  have "occupied_count (grid ?b') = occupied_count (grid ?b)"
    using cnt teleport_body_count [OF wf ok] by simp
  with bt win_resolution_keeps [of ?gm2 TeleportPiece column] len cur
  show ?thesis by (auto simp: prod_eq_iff)
qed

theorem swap_keeps_occupied_count_witness:
  "wf_board (board bomb_game) \<and> current_player bomb_game < length (players bomb_game)
   \<and> choose_piece (players bomb_game ! current_player bomb_game) (Some (''T'', 4))
       = Some (TeleportPiece, 4,
               \<lparr>name = ''Bob'', player_symbol = ''X'',
                 pieces = replicate 18 (Piece ''X'') @ replicate 3 TeleportPiece
                          @ replicate 2 BombPiece\<rparr>)
   \<and> (0::int) < 4 \<and> 4 \<le> int (columns (board bomb_game))
   \<and> spec_lowest_empty_row (rows (board bomb_game)) (grid (board bomb_game)) (nat (4 - 1)) \<noteq> None
   \<and> occupied_count (grid (board bomb_game)) = 7
   \<and> length (pieces (players bomb_game ! current_player bomb_game)) = 24
   \<and> (\<exists>gm' res. begin_turn bomb_game (Some (''T'', 4)) = Some (gm', res)
          \<and> res \<noteq> Reprompt \<and> res \<noteq> Skipped
          \<and> occupied_count (grid (board gm')) = 7
          \<and> length (pieces (players gm' ! current_player bomb_game)) + 1 = 24)"
proof -
  have wf: "wf_board (board bomb_game)" by code_simp
  have cur: "current_player bomb_game < length (players bomb_game)" by code_simp
  have cp: "choose_piece (players bomb_game ! current_player bomb_game) (Some (''T'', 4))
       = Some (TeleportPiece, 4,
               \<lparr>name = ''Bob'', player_symbol = ''X'',
                 pieces = replicate 18 (Piece ''X'') @ replicate 3 TeleportPiece
                          @ replicate 2 BombPiece\<rparr>)" by code_simp
  have c1: "(0::int) < 4" and c2: "4 \<le> int (columns (board bomb_game))" by code_simp+
  have room: "spec_lowest_empty_row (rows (board bomb_game)) (grid (board bomb_game))
                (nat (4 - 1)) \<noteq> None" by code_simp
  have n: "occupied_count (grid (board bomb_game)) = 7" by code_simp
  have m: "length (pieces (players bomb_game ! current_player bomb_game)) = 24" by code_simp
  from swap_keeps_occupied_count [OF wf cur cp c1 c2 room] wf cur cp c1 c2 room n m
  show ?thesis by auto
qed

section \<open>The reads of the anchored check\<close>

text \<open>
  From a start whose untested bounds hold, a loop reads only cells inside the grid; so
  does the whole anchored check when the inserted row was found, as it is after the
  insertion of a plain piece.
\<close>

lemma walk_reads_inside:
  "off_axis b d r c \<Longrightarrow> list_all (inside b) (snd (walk b s d r c))"
proof (induction b s d r c rule: walk.induct)
  case (1 b s d r c)
  show ?case
  proof (cases "in_range b d r c \<and> py_cell b r c = s")
    case True
    have here: "inside b (r, c)" using True "1.prems" by (cases d) (auto simp: inside_def)
    have "off_axis b d (r + fst (delta d)) (c + snd (delta d))"
      using True "1.prems" by (cases d) auto
    with "1.IH" True have "list_all (inside b) (snd (walk b s d (r + fst (delta d)) (c + snd (delta d))))"
      by simp
    with here True show ?thesis
      by (subst walk.simps) (auto split: prod.splits)
  next
    case False
    show ?thesis
    proof (cases "in_range b d r c")
      case True
      have "inside b (r, c)" using True "1.prems" by (cases d) (auto simp: inside_def)
      with True False show ?thesis by (subst walk.simps) simp
    next
      case False
      then show ?thesis by (subst walk.simps) simp
    qed
  qed
qed

lemma anchored_reads_inside:
  assumes "0 \<le> inserted_row" "inserted_row < int (rows b)"
    "0 \<le> column_i0" "column_i0 < int (columns b)"
  shows "list_all (inside b) (anchored_reads b s inserted_row column_i0)"
proof -
  have "\<And>d. list_all (inside b) (snd (walk_from b s d inserted_row column_i0))"
  proof -
    fix d
    have "off_axis b d (inserted_row + fst (delta d)) (column_i0 + snd (delta d))"
      using assms by (cases d) auto
    then show "list_all (inside b) (snd (walk_from b s d inserted_row column_i0))"
      unfolding walk_from_def by (rule walk_reads_inside)
  qed
  then show ?thesis by (simp add: anchored_reads_def)
qed

lemma plain_piece_reads_inside:
  assumes wf: "wf_board b" and ins: "Piece_insert s b column = (b', True)"
  shows "list_all (inside b')
           (anchored_reads b' s (inserted_row_of b' (column - 1) s) (column - 1))"
proof -
  let ?c = "nat (column - 1)"
  from ins have col: "0 < column" "column \<le> int (columns b)"
    by (auto simp: Piece_insert_eq split: if_splits)
  with ins obtain r where land: "spec_lowest_empty_row (rows b) (grid b) ?c = Some r"
    and b': "b' = b\<lparr>grid := set_cell (grid b) r ?c s\<rparr>"
    by (auto simp: Piece_insert_eq split: option.splits)
  note l = lowest_empty_rowD [OF land]
  have len: "r < length (grid b)" "?c < length (grid b ! r)"
    using wf l(1) col by (simp_all add: wf_board_def wf_grid_def)
  have here: "grid b' ! r ! ?c = s" using nth_set_cell [OF len] b' by simp
  have "find (\<lambda>row. grid b' ! row ! ?c = s) [0..<rows b'] \<noteq> None"
    using here l(1) b' by (auto simp: find_None_iff)
  then obtain k where "find (\<lambda>row. grid b' ! row ! ?c = s) [0..<rows b'] = Some k" by auto
  moreover from this have "k < rows b'" by (auto simp: find_Some_iff)
  ultimately have "inserted_row_of b' (column - 1) s = int k" "k < rows b'"
    by (simp_all add: inserted_row_of_def)
  then show ?thesis using anchored_reads_inside [of "int k" b' "column - 1" s] col b' by simp
qed

text \<open>
  Claim C3.  The claim fails for the bomb and the teleport piece.  Neither leaves its
  symbol in the played column, so the search of \<open>Game.begin\<close> for the inserted row
  ends with \<open>inserted_row = -1\<close>, and the horizontal loops read
  \<open>grid[-1][column_index]\<close>: a row index outside \<open>[0, rows)\<close>, which Python takes
  for the last row.  In the new game, Ann plays a teleport piece into column 2: the reads
  of the anchored check start with \<open>(-1, 0)\<close> and \<open>(-1, 2)\<close>.
\<close>

theorem anchored_check_reads_row_minus_one:
  "begin_turn new_game (Some (''T'', 2)) = Some (teleported_game, Next)
   \<and> insert_piece TeleportPiece (board new_game) 2 = Some (board teleported_game, True)
   \<and> inserted_row_of (board teleported_game) (2 - 1) (symbol TeleportPiece) = - 1
   \<and> anchored_reads (board teleported_game) (symbol TeleportPiece) (- 1) (2 - 1)
       = [(- 1, 0), (- 1, 2), (0, 2), (0, 0), (0, 1)]
   \<and> \<not> inside (board teleported_game) (- 1, 0)
   \<and> \<not> list_all (inside (board teleported_game))
          (anchored_reads (board teleported_game) (symbol TeleportPiece)
             (inserted_row_of (board teleported_game) (2 - 1) (symbol TeleportPiece)) (2 - 1))
   \<and> py_cell (board teleported_game) (- 1) 0 = grid (board teleported_game) ! 5 ! 0"
  by code_simp

section \<open>The boards of a game hold no \<open>B\<close> and no \<open>T\<close>\<close>

text \<open>
  The gravity loop moves cells and writes blanks; a plain piece made by \<open>add_piece\<close>
  has a symbol other than \<open>B\<close> and \<open>T\<close>; a bomb clears the cell it lands on and a
  teleport piece is taken off the board.  So the search for the landing row finds it on
  every board of a game, and there the placements are the ones the specification words.
\<close>

lemma cells_in_set_cell:
  assumes "wf_grid r c g" "cells_in r c A g" "v \<in> A" "i < r" "j < c"
  shows "cells_in r c A (set_cell g i j v)"
  using assms nth_set_cell [of i g j v] by (auto simp: cells_in_def wf_grid_def)

lemma fall_step_cells:
  assumes "wf_grid r c (fst gm) \<and> cells_in r c A (fst gm)" "'' '' \<in> A" "row + 1 < r" "column < c"
  shows "wf_grid r c (fst (fall_step column row gm)) \<and> cells_in r c A (fst (fall_step column row gm))"
proof (cases gm)
  case (Pair g m)
  with assms have wf: "wf_grid r c g" and ci: "cells_in r c A g" by simp_all
  have v: "g ! row ! column \<in> A" using ci assms(3,4) by (simp add: cells_in_def)
  have wf1: "wf_grid r c (set_cell g (row + 1) column (g ! row ! column))"
    using wf by (rule wf_grid_set_cell)
  have c1: "cells_in r c A (set_cell g (row + 1) column (g ! row ! column))"
    using cells_in_set_cell [OF wf ci v] assms(3,4) by simp
  have c2: "cells_in r c A (set_cell (set_cell g (row + 1) column (g ! row ! column)) row column '' '')"
    using cells_in_set_cell [OF wf1 c1 assms(2)] assms(3,4) by simp
  show ?thesis using Pair wf ci wf1 c2 by (simp add: fall_step_def wf_grid_set_cell)
qed

lemma fold_fall_step_cells:
  "wf_grid r c (fst gm) \<and> cells_in r c A (fst gm) \<Longrightarrow> '' '' \<in> A \<Longrightarrow>
   \<forall>row \<in> set xs. row + 1 < r \<Longrightarrow> column < c \<Longrightarrow>
   wf_grid r c (fst (fold (fall_step column) xs gm))
   \<and> cells_in r c A (fst (fold (fall_step column) xs gm))"
proof (induction xs arbitrary: gm)
  case Nil
  then show ?case by simp
next
  case (Cons x xs)
  have "wf_grid r c (fst (fall_step column x gm)) \<and> cells_in r c A (fst (fall_step column x gm))"
    using Cons.prems by (intro fall_step_cells) auto
  from Cons.IH [OF this] Cons.prems show ?case by simp
qed

lemma fold_sweep_column_cells:
  "wf_grid r c (fst gm) \<and> cells_in r c A (fst gm) \<Longrightarrow> '' '' \<in> A \<Longrightarrow>
   \<forall>column \<in> set cs. column < c \<Longrightarrow>
   wf_grid r c (fst (fold (sweep_column r) cs gm))
   \<and> cells_in r c A (fst (fold (sweep_column r) cs gm))"
proof (induction cs arbitrary: gm)
  case Nil
  then show ?case by simp
next
  case (Cons x cs)
  have "wf_grid r c (fst (sweep_column r x gm)) \<and> cells_in r c A (fst (sweep_column r x gm))"
    unfolding sweep_column_def using Cons.prems by (intro fold_fall_step_cells) auto
  from Cons.IH [OF this] Cons.prems show ?case by simp
qed

lemma sweep_cells:
  "wf_grid r c g \<Longrightarrow> cells_in r c A g \<Longrightarrow> '' '' \<in> A \<Longrightarrow> cells_in r c A (fst (sweep r c g))"
  unfolding sweep_def using fold_sweep_column_cells [of r c "(g, False)" A "[0..<c]"] by simp

lemma gravity_loop_cells:
  "wf_grid r c g \<Longrightarrow> cells_in r c A g \<Longrightarrow> '' '' \<in> A \<Longrightarrow> gravity_loop r c g = Some g' \<Longrightarrow>
   cells_in r c A g'"
proof (induction g rule: measure_induct_rule [where f = "height_above_support c"])
  case (less g)
  obtain g1 m where sw: "sweep r c g = (g1, m)" by (cases "sweep r c g")
  from sweep_sweep_inv [OF less.prems(1)] sw
  have wf1: "wf_grid r c g1" and dec: "m \<Longrightarrow> height_above_support c g1 < height_above_support c g"
    by (auto simp: sweep_inv_def split: if_splits)
  from sweep_cells [OF less.prems(1-3)] sw have c1: "cells_in r c A g1" by simp
  show ?case
  proof (cases m)
    case True
    from less.prems(4) sw True have "gravity_loop r c g1 = Some g'"
      by (subst (asm) gravity_loop.simps) simp
    from less.IH [OF dec [OF True] wf1 c1 less.prems(3) this] show ?thesis .
  next
    case False
    from less.prems(4) sw False have "g' = g1" by (subst (asm) gravity_loop.simps) simp
    with c1 show ?thesis by simp
  qed
qed


lemma plain_cells_below:
  "plain_cells b \<Longrightarrow> c < columns b \<Longrightarrow>
   (\<forall>r' \<in> set [Suc r..<rows b]. grid b ! r' ! c \<noteq> ''B'')
   \<and> (\<forall>r' \<in> set [Suc r..<rows b]. grid b ! r' ! c \<noteq> ''T'')"
  by (auto simp: plain_cells_def cells_in_def)

lemma gravity_decorator_plain_cells:
  assumes sd: "same_dims b (fst (body b column))"
    and pc: "cells_in (rows b) (columns b) {x. x \<noteq> ''B'' \<and> x \<noteq> ''T''} (grid (fst (body b column)))"
    and gd: "gravity_decorator body b column = Some (b', ok)"
  shows "plain_cells b'"
proof -
  from gravity_decorator_total [of b body column, OF sd] gd obtain g'
    where b': "b' = (fst (body b column))\<lparr>grid := g'\<rparr>"
      and gl: "gravity_loop (rows b) (columns b) (grid (fst (body b column))) = Some g'"
    by auto
  have wf: "wf_grid (rows b) (columns b) (grid (fst (body b column)))"
    using sd by (simp add: same_dims_def)
  from gravity_loop_cells [OF wf pc _ gl]
  have "cells_in (rows b) (columns b) {x. x \<noteq> ''B'' \<and> x \<noteq> ''T''} g'" by simp
  then show ?thesis using b' sd by (simp add: plain_cells_def same_dims_def)
qed

lemma insert_piece_plain_cells:
  assumes wf: "wf_board b" and pc: "plain_cells b"
    and ins: "insert_piece (new_piece s) b column = Some (b', ok)"
  shows "plain_cells b'"
proof -
  let ?A = "{x. x \<noteq> ''B'' \<and> x \<noteq> ''T''}"
  let ?c = "nat (column - 1)"
  have wfg: "wf_grid (rows b) (columns b) (grid b)" using wf by (simp add: wf_board_def)
  have ci: "cells_in (rows b) (columns b) ?A (grid b)" using pc by (simp add: plain_cells_def)
  consider (plain) "s \<noteq> ''B''" "s \<noteq> ''T''" | (bomb) "s = ''B''" | (teleport) "s = ''T''"
    by blast
  then show ?thesis
  proof cases
    case plain
    then have "Piece_insert s b column = (b', ok)" using ins by (simp add: new_piece_def)
    then show ?thesis
      using pc plain cells_in_set_cell [OF wfg ci, of s _ ?c]
      by (auto simp: Piece_insert_eq plain_cells_def split: if_splits option.splits
          dest: lowest_empty_rowD(1))
  next
    case bomb
    then have gd: "gravity_decorator BombPiece_insert_body b column = Some (b', ok)"
      using ins by (simp add: new_piece_def)
    have sd: "same_dims b (fst (BombPiece_insert_body b column))"
      using wf by (rule same_dims_BombPiece_insert_body)
    have "cells_in (rows b) (columns b) ?A (grid (fst (BombPiece_insert_body b column)))"
    proof (cases "snd (Piece_insert ''B'' b column)")
      case False
      then have "BombPiece_insert_body b column = (b, False)"
        by (auto simp: BombPiece_insert_body_def Piece_insert_eq split: if_splits option.splits)
      with ci show ?thesis by simp
    next
      case True
      then have col: "0 < column" "column \<le> int (columns b)"
        by (auto simp: Piece_insert_eq split: if_splits)
      with True obtain r where land: "spec_lowest_empty_row (rows b) (grid b) ?c = Some r"
        by (auto simp: Piece_insert_eq split: option.splits)
      have c: "?c < columns b" using col by auto
      note l = lowest_empty_rowD [OF land]
      have len: "r < length (grid b)" "?c < length (grid b ! r)"
        using wfg l(1) c by (simp_all add: wf_grid_def)
      from BombPiece_insert_landing [OF wf col land] plain_cells_below [OF pc c, of r]
      have body: "grid (fst (BombPiece_insert_body b column))
                  = spec_area_clear r ?c (set_cell (grid b) r ?c ''B'')" by simp
      have wf1: "wf_grid (rows b) (columns b) (set_cell (grid b) r ?c ''B'')"
        using wfg by (rule wf_grid_set_cell)
      show ?thesis unfolding body cells_in_def
      proof (intro allI impI)
        fix i j assume ij: "i < rows b" "j < columns b"
        show "spec_area_clear r ?c (set_cell (grid b) r ?c ''B'') ! i ! j \<in> ?A"
          using spec_area_clear_cell [OF wf1 ij, of r ?c] nth_set_cell [OF len, of "''B''" i j]
            ci ij by (auto simp: cells_in_def)
      qed
    qed
    from gravity_decorator_plain_cells [OF sd this gd] show ?thesis .
  next
    case teleport
    then have gd: "gravity_decorator TeleportPiece_insert_body b column = Some (b', ok)"
      using ins by (simp add: new_piece_def)
    have sd: "same_dims b (fst (TeleportPiece_insert_body b column))"
      using wf by (rule same_dims_TeleportPiece_insert_body)
    have "cells_in (rows b) (columns b) ?A (grid (fst (TeleportPiece_insert_body b column)))"
    proof (cases "snd (Piece_insert ''T'' b column)")
      case False
      then have "TeleportPiece_insert_body b column = (b, False)"
        by (auto simp: TeleportPiece_insert_body_def Piece_insert_eq
            split: if_splits option.splits)
      with ci show ?thesis by simp
    next
      case True
      then have col: "0 < column" "column \<le> int (columns b)"
        by (auto simp: Piece_insert_eq split: if_splits)
      with True obtain r where land: "spec_lowest_empty_row (rows b) (grid b) ?c = Some r"
        by (auto simp: Piece_insert_eq split: option.splits)
      have c: "?c < columns b" using col by auto
      note l = lowest_empty_rowD [OF land]
      from TeleportPiece_insert_landing [OF wf col land] plain_cells_below [OF pc c, of r]
      have body: "grid (fst (TeleportPiece_insert_body b column))
                  = spec_swap (rows b) (columns b) (grid b) r ?c" by simp
      let ?mr = "nat (int (rows b) - 1 - int r)"
      let ?mc = "nat (int (columns b) - 1 - int ?c)"
      have m: "?mr < rows b" "?mc < columns b" using l(1) c by auto
      let ?g2 = "set_cell (grid b) ?mr ?mc '' ''"
      have wf2: "wf_grid (rows b) (columns b) ?g2" using wfg by (rule wf_grid_set_cell)
      have c2: "cells_in (rows b) (columns b) ?A ?g2"
        using cells_in_set_cell [OF wfg ci _ m] by simp
      have v: "grid b ! ?mr ! ?mc \<in> ?A" using ci m by (simp add: cells_in_def)
      have "\<And>r2. spec_lowest_empty_row (rows b) ?g2 ?c = Some r2 \<Longrightarrow>
              cells_in (rows b) (columns b) ?A (set_cell ?g2 r2 ?c (grid b ! ?mr ! ?mc))"
        using cells_in_set_cell [OF wf2 c2 v _ c] by (auto dest: lowest_empty_rowD(1))
      then show ?thesis unfolding body
        using ci c2 by (auto simp: spec_swap_def Let_def split: option.splits)
    qed
    from gravity_decorator_plain_cells [OF sd this gd] show ?thesis .
  qed
qed

lemma plain_cells_Board: "plain_cells (Board r c)"
  by (simp add: plain_cells_def cells_in_def Board_def)

lemma reachable_plain_cells: "reachable b \<Longrightarrow> plain_cells b"
proof (induction rule: reachable.induct)
  case (start r c)
  show ?case by (rule plain_cells_Board)
next
  case (place b s column b' ok)
  from insert_piece_plain_cells [OF _ place.IH place.hyps(2)] reachable_wf_settled [OF place.hyps(1)]
  show ?case by simp
qed


lemma teleport_in_play:
  assumes "reachable b" "0 < column" "column \<le> int (columns b)"
    and "spec_lowest_empty_row (rows b) (grid b) (nat (column - 1)) = Some r"
  shows "TeleportPiece_insert_body b column
           = (b\<lparr>grid := spec_swap (rows b) (columns b) (grid b) r (nat (column - 1))\<rparr>, True)"
proof -
  have wf: "wf_board b" using assms(1) by (simp add: reachable_wf_settled)
  have "nat (column - 1) < columns b" using assms(2,3) by auto
  from TeleportPiece_insert_landing [OF wf assms(2-4)]
    plain_cells_below [OF reachable_plain_cells [OF assms(1)] this, of r]
  show ?thesis by simp
qed

section \<open>The bomb and the teleport piece in a game\<close>








end
